theory Spec2Isabelle
  imports Main "HOL-Library.AList" "HOL-Library.Product_Lexorder"
begin

section \<open>JavaScript strings\<close>

text \<open>
  A JavaScript string is modelled as a HOL \<^typ>\<open>string\<close>: the bytes of its UTF-8
  encoding, so that ASCII text is one character per byte. \<open>trim\<close> strips every code point
  that JavaScript strips. \<open>toLowerCase\<close> folds the ASCII letters, the letters of
  U+00C0 to U+017F (the letters of the five locales of the translated headers) and the
  three characters beyond with a lower case in that range (capital sharp s, the Kelvin
  sign, the Angstrom sign); letters of other scripts are left as they are. The lower case
  of such a letter lies beyond U+017F, so it occurs in none of the strings the handlers
  compare a lower-cased header with, and every such comparison of the model agrees with
  the code's. The regular expressions \<open>/^b34/i\<close> and \<open>/v1$/i\<close> of
  the source only ever match ASCII letters and digits.
\<close>

definition startsWith :: "string \<Rightarrow> string \<Rightarrow> bool" where
  \<comment> \<open>\<open>s.startsWith(p)\<close>\<close>
  "startsWith s p = (take (length p) s = p)"

definition endsWith :: "string \<Rightarrow> string \<Rightarrow> bool" where
  \<comment> \<open>\<open>s.endsWith(p)\<close>\<close>
  "endsWith s p = (length p \<le> length s \<and> drop (length s - length p) s = p)"

definition whiteSpaces :: "string list" where
  \<comment> \<open>the code points \<open>trim\<close> strips (\<open>WhiteSpace\<close> and \<open>LineTerminator\<close> of ECMAScript):
     U+0009 to U+000D, U+0020, U+00A0, U+1680, U+2000 to U+200A, U+2028, U+2029, U+202F,
     U+205F, U+3000 and U+FEFF, in UTF-8\<close>
  "whiteSpaces =
     [[CHR 0x09], [CHR 0x0A], [CHR 0x0B], [CHR 0x0C], [CHR 0x0D], [CHR 0x20],
      [CHR 0xC2, CHR 0xA0], [CHR 0xE1, CHR 0x9A, CHR 0x80],
      [CHR 0xE2, CHR 0x80, CHR 0x80], [CHR 0xE2, CHR 0x80, CHR 0x81], [CHR 0xE2, CHR 0x80, CHR 0x82],
      [CHR 0xE2, CHR 0x80, CHR 0x83], [CHR 0xE2, CHR 0x80, CHR 0x84], [CHR 0xE2, CHR 0x80, CHR 0x85],
      [CHR 0xE2, CHR 0x80, CHR 0x86], [CHR 0xE2, CHR 0x80, CHR 0x87], [CHR 0xE2, CHR 0x80, CHR 0x88],
      [CHR 0xE2, CHR 0x80, CHR 0x89], [CHR 0xE2, CHR 0x80, CHR 0x8A],
      [CHR 0xE2, CHR 0x80, CHR 0xA8], [CHR 0xE2, CHR 0x80, CHR 0xA9], [CHR 0xE2, CHR 0x80, CHR 0xAF],
      [CHR 0xE2, CHR 0x81, CHR 0x9F], [CHR 0xE3, CHR 0x80, CHR 0x80], [CHR 0xEF, CHR 0xBB, CHR 0xBF]]"

function stripLeading :: "string list \<Rightarrow> string \<Rightarrow> string" where
  \<comment> \<open>the string without its leading run of the given sequences\<close>
  "stripLeading ws s =
     (case find (\<lambda>w. w \<noteq> [] \<and> startsWith s w) ws of
        Some w \<Rightarrow> stripLeading ws (drop (length w) s)
      | None \<Rightarrow> s)"
  by pat_completeness auto
termination
proof (relation "measure (\<lambda>(ws, s). length s)")
  show "wf (measure (\<lambda>(ws, s). length s))" by simp
next
  fix ws :: "string list" and s w :: string
  assume "find (\<lambda>w. w \<noteq> [] \<and> startsWith s w) ws = Some w"
  then have "w \<noteq> []" and "take (length w) s = w"
    by (auto simp: find_Some_iff startsWith_def)
  then have "s \<noteq> []" and "0 < length w" by auto
  then show "((ws, drop (length w) s), (ws, s)) \<in> measure (\<lambda>(ws, s). length s)"
    by simp
qed

declare stripLeading.simps [simp del]

definition trimStart :: "string \<Rightarrow> string" where
  \<comment> \<open>\<open>s.trimStart()\<close>\<close>
  "trimStart s = stripLeading whiteSpaces s"

definition trimEnd :: "string \<Rightarrow> string" where
  \<comment> \<open>\<open>s.trimEnd()\<close>\<close>
  "trimEnd s = rev (stripLeading (map rev whiteSpaces) (rev s))"

definition trim :: "string \<Rightarrow> string" where
  \<comment> \<open>\<open>s.trim()\<close>\<close>
  "trim s = trimEnd (trimStart s)"

definition toLowerChar :: "char \<Rightarrow> char" where
  \<comment> \<open>the lower case of an ASCII character\<close>
  "toLowerChar c =
     (case map_of (zip ''ABCDEFGHIJKLMNOPQRSTUVWXYZ'' ''abcdefghijklmnopqrstuvwxyz'') c of
        Some l \<Rightarrow> l
      | None \<Rightarrow> c)"

definition lowerTable :: "(string \<times> string) list" where
  \<comment> \<open>the upper-case letters of U+00C0 to U+017F, capital sharp s (U+1E9E), the Kelvin sign
     (U+212A) and the Angstrom sign (U+212B), each with its lower case, in UTF-8\<close>
  "lowerTable =
     [([CHR 0xC3, CHR 0x80], [CHR 0xC3, CHR 0xA0]), ([CHR 0xC3, CHR 0x81], [CHR 0xC3, CHR 0xA1]),
      ([CHR 0xC3, CHR 0x82], [CHR 0xC3, CHR 0xA2]), ([CHR 0xC3, CHR 0x83], [CHR 0xC3, CHR 0xA3]),
      ([CHR 0xC3, CHR 0x84], [CHR 0xC3, CHR 0xA4]), ([CHR 0xC3, CHR 0x85], [CHR 0xC3, CHR 0xA5]),
      ([CHR 0xC3, CHR 0x86], [CHR 0xC3, CHR 0xA6]), ([CHR 0xC3, CHR 0x87], [CHR 0xC3, CHR 0xA7]),
      ([CHR 0xC3, CHR 0x88], [CHR 0xC3, CHR 0xA8]), ([CHR 0xC3, CHR 0x89], [CHR 0xC3, CHR 0xA9]),
      ([CHR 0xC3, CHR 0x8A], [CHR 0xC3, CHR 0xAA]), ([CHR 0xC3, CHR 0x8B], [CHR 0xC3, CHR 0xAB]),
      ([CHR 0xC3, CHR 0x8C], [CHR 0xC3, CHR 0xAC]), ([CHR 0xC3, CHR 0x8D], [CHR 0xC3, CHR 0xAD]),
      ([CHR 0xC3, CHR 0x8E], [CHR 0xC3, CHR 0xAE]), ([CHR 0xC3, CHR 0x8F], [CHR 0xC3, CHR 0xAF]),
      ([CHR 0xC3, CHR 0x90], [CHR 0xC3, CHR 0xB0]), ([CHR 0xC3, CHR 0x91], [CHR 0xC3, CHR 0xB1]),
      ([CHR 0xC3, CHR 0x92], [CHR 0xC3, CHR 0xB2]), ([CHR 0xC3, CHR 0x93], [CHR 0xC3, CHR 0xB3]),
      ([CHR 0xC3, CHR 0x94], [CHR 0xC3, CHR 0xB4]), ([CHR 0xC3, CHR 0x95], [CHR 0xC3, CHR 0xB5]),
      ([CHR 0xC3, CHR 0x96], [CHR 0xC3, CHR 0xB6]), ([CHR 0xC3, CHR 0x98], [CHR 0xC3, CHR 0xB8]),
      ([CHR 0xC3, CHR 0x99], [CHR 0xC3, CHR 0xB9]), ([CHR 0xC3, CHR 0x9A], [CHR 0xC3, CHR 0xBA]),
      ([CHR 0xC3, CHR 0x9B], [CHR 0xC3, CHR 0xBB]), ([CHR 0xC3, CHR 0x9C], [CHR 0xC3, CHR 0xBC]),
      ([CHR 0xC3, CHR 0x9D], [CHR 0xC3, CHR 0xBD]), ([CHR 0xC3, CHR 0x9E], [CHR 0xC3, CHR 0xBE]),
      ([CHR 0xC4, CHR 0x80], [CHR 0xC4, CHR 0x81]), ([CHR 0xC4, CHR 0x82], [CHR 0xC4, CHR 0x83]),
      ([CHR 0xC4, CHR 0x84], [CHR 0xC4, CHR 0x85]), ([CHR 0xC4, CHR 0x86], [CHR 0xC4, CHR 0x87]),
      ([CHR 0xC4, CHR 0x88], [CHR 0xC4, CHR 0x89]), ([CHR 0xC4, CHR 0x8A], [CHR 0xC4, CHR 0x8B]),
      ([CHR 0xC4, CHR 0x8C], [CHR 0xC4, CHR 0x8D]), ([CHR 0xC4, CHR 0x8E], [CHR 0xC4, CHR 0x8F]),
      ([CHR 0xC4, CHR 0x90], [CHR 0xC4, CHR 0x91]), ([CHR 0xC4, CHR 0x92], [CHR 0xC4, CHR 0x93]),
      ([CHR 0xC4, CHR 0x94], [CHR 0xC4, CHR 0x95]), ([CHR 0xC4, CHR 0x96], [CHR 0xC4, CHR 0x97]),
      ([CHR 0xC4, CHR 0x98], [CHR 0xC4, CHR 0x99]), ([CHR 0xC4, CHR 0x9A], [CHR 0xC4, CHR 0x9B]),
      ([CHR 0xC4, CHR 0x9C], [CHR 0xC4, CHR 0x9D]), ([CHR 0xC4, CHR 0x9E], [CHR 0xC4, CHR 0x9F]),
      ([CHR 0xC4, CHR 0xA0], [CHR 0xC4, CHR 0xA1]), ([CHR 0xC4, CHR 0xA2], [CHR 0xC4, CHR 0xA3]),
      ([CHR 0xC4, CHR 0xA4], [CHR 0xC4, CHR 0xA5]), ([CHR 0xC4, CHR 0xA6], [CHR 0xC4, CHR 0xA7]),
      ([CHR 0xC4, CHR 0xA8], [CHR 0xC4, CHR 0xA9]), ([CHR 0xC4, CHR 0xAA], [CHR 0xC4, CHR 0xAB]),
      ([CHR 0xC4, CHR 0xAC], [CHR 0xC4, CHR 0xAD]), ([CHR 0xC4, CHR 0xAE], [CHR 0xC4, CHR 0xAF]),
      ([CHR 0xC4, CHR 0xB0], [CHR 0x69, CHR 0xCC, CHR 0x87]),
      ([CHR 0xC4, CHR 0xB2], [CHR 0xC4, CHR 0xB3]), ([CHR 0xC4, CHR 0xB4], [CHR 0xC4, CHR 0xB5]),
      ([CHR 0xC4, CHR 0xB6], [CHR 0xC4, CHR 0xB7]), ([CHR 0xC4, CHR 0xB9], [CHR 0xC4, CHR 0xBA]),
      ([CHR 0xC4, CHR 0xBB], [CHR 0xC4, CHR 0xBC]), ([CHR 0xC4, CHR 0xBD], [CHR 0xC4, CHR 0xBE]),
      ([CHR 0xC4, CHR 0xBF], [CHR 0xC5, CHR 0x80]), ([CHR 0xC5, CHR 0x81], [CHR 0xC5, CHR 0x82]),
      ([CHR 0xC5, CHR 0x83], [CHR 0xC5, CHR 0x84]), ([CHR 0xC5, CHR 0x85], [CHR 0xC5, CHR 0x86]),
      ([CHR 0xC5, CHR 0x87], [CHR 0xC5, CHR 0x88]), ([CHR 0xC5, CHR 0x8A], [CHR 0xC5, CHR 0x8B]),
      ([CHR 0xC5, CHR 0x8C], [CHR 0xC5, CHR 0x8D]), ([CHR 0xC5, CHR 0x8E], [CHR 0xC5, CHR 0x8F]),
      ([CHR 0xC5, CHR 0x90], [CHR 0xC5, CHR 0x91]), ([CHR 0xC5, CHR 0x92], [CHR 0xC5, CHR 0x93]),
      ([CHR 0xC5, CHR 0x94], [CHR 0xC5, CHR 0x95]), ([CHR 0xC5, CHR 0x96], [CHR 0xC5, CHR 0x97]),
      ([CHR 0xC5, CHR 0x98], [CHR 0xC5, CHR 0x99]), ([CHR 0xC5, CHR 0x9A], [CHR 0xC5, CHR 0x9B]),
      ([CHR 0xC5, CHR 0x9C], [CHR 0xC5, CHR 0x9D]), ([CHR 0xC5, CHR 0x9E], [CHR 0xC5, CHR 0x9F]),
      ([CHR 0xC5, CHR 0xA0], [CHR 0xC5, CHR 0xA1]), ([CHR 0xC5, CHR 0xA2], [CHR 0xC5, CHR 0xA3]),
      ([CHR 0xC5, CHR 0xA4], [CHR 0xC5, CHR 0xA5]), ([CHR 0xC5, CHR 0xA6], [CHR 0xC5, CHR 0xA7]),
      ([CHR 0xC5, CHR 0xA8], [CHR 0xC5, CHR 0xA9]), ([CHR 0xC5, CHR 0xAA], [CHR 0xC5, CHR 0xAB]),
      ([CHR 0xC5, CHR 0xAC], [CHR 0xC5, CHR 0xAD]), ([CHR 0xC5, CHR 0xAE], [CHR 0xC5, CHR 0xAF]),
      ([CHR 0xC5, CHR 0xB0], [CHR 0xC5, CHR 0xB1]), ([CHR 0xC5, CHR 0xB2], [CHR 0xC5, CHR 0xB3]),
      ([CHR 0xC5, CHR 0xB4], [CHR 0xC5, CHR 0xB5]), ([CHR 0xC5, CHR 0xB6], [CHR 0xC5, CHR 0xB7]),
      ([CHR 0xC5, CHR 0xB8], [CHR 0xC3, CHR 0xBF]), ([CHR 0xC5, CHR 0xB9], [CHR 0xC5, CHR 0xBA]),
      ([CHR 0xC5, CHR 0xBB], [CHR 0xC5, CHR 0xBC]), ([CHR 0xC5, CHR 0xBD], [CHR 0xC5, CHR 0xBE]),
      ([CHR 0xE1, CHR 0xBA, CHR 0x9E], [CHR 0xC3, CHR 0x9F]),
      ([CHR 0xE2, CHR 0x84, CHR 0xAA], ''k''), ([CHR 0xE2, CHR 0x84, CHR 0xAB], [CHR 0xC3, CHR 0xA5])]"

function toLowerCase :: "string \<Rightarrow> string" where
  \<comment> \<open>\<open>s.toLowerCase()\<close>\<close>
  "toLowerCase [] = []"
| "toLowerCase (c # cs) =
     (if \<not> digit7 c then toLowerChar c # toLowerCase cs
      else case find (\<lambda>(u, l). startsWith (c # cs) u) lowerTable of
             Some (u, l) \<Rightarrow> l @ toLowerCase (drop (length u - 1) cs)
           | None \<Rightarrow> c # toLowerCase cs)"
  by pat_completeness auto
termination
  by (relation "measure length") auto

declare toLowerCase.simps [simp del]

fun indexOf :: "string \<Rightarrow> string \<Rightarrow> nat option" where
  \<comment> \<open>\<open>s.indexOf(p)\<close>, with \<open>None\<close> for \<open>-1\<close>\<close>
  "indexOf [] p = (if p = [] then Some 0 else None)"
| "indexOf (c # cs) p =
     (if startsWith (c # cs) p then Some 0 else map_option Suc (indexOf cs p))"

definition includesStr :: "string \<Rightarrow> string \<Rightarrow> bool" where
  \<comment> \<open>\<open>s.includes(p)\<close>\<close>
  "includesStr s p = (indexOf s p \<noteq> None)"

fun join :: "string \<Rightarrow> string list \<Rightarrow> string" where
  \<comment> \<open>\<open>xs.join(sep)\<close>\<close>
  "join sep [] = []"
| "join sep [x] = x"
| "join sep (x # y # ys) = x @ sep @ join sep (y # ys)"

definition replace_first :: "string \<Rightarrow> string \<Rightarrow> string" where
  \<comment> \<open>\<open>s.replace(p, '')\<close> with a string pattern: only the first occurrence goes\<close>
  "replace_first s p =
     (case indexOf s p of None \<Rightarrow> s | Some i \<Rightarrow> take i s @ drop (i + length p) s)"

section \<open>Identifier normalizer\<close>

definition canonicalize :: "string \<Rightarrow> string" where
  \<comment> \<open>the case folding of the \<open>i\<close> flag of a regular expression, character by character;
     a character outside ASCII never folds to an ASCII one\<close>
  "canonicalize s = map toLowerChar s"

definition prefixMatch :: "string \<Rightarrow> string option" where
  \<comment> \<open>\<open>normalized.match(/^b34/i)\<close>: the matched text, when there is a match\<close>
  "prefixMatch s = (if canonicalize (take 3 s) = ''b34'' then Some (take 3 s) else None)"

definition suffixMatch :: "string \<Rightarrow> string option" where
  \<comment> \<open>\<open>normalized.match(/v1$/i)\<close>\<close>
  "suffixMatch s =
     (if canonicalize (drop (length s - 2) s) = ''v1'' then Some (drop (length s - 2) s) else None)"

definition normalizeSKU :: "string \<Rightarrow> string" where
  "normalizeSKU sku =
     (if sku = [] then []
      else
        let normalized = trim sku;
            normalized = (case prefixMatch normalized of
                            Some m \<Rightarrow> drop (length m) normalized
                          | None \<Rightarrow> normalized);
            normalized = (case suffixMatch normalized of
                            Some m \<Rightarrow> take (length normalized - length m) normalized
                          | None \<Rightarrow> normalized)
        in trim normalized)"

subsection \<open>What trimming removes\<close>

inductive concatOf :: "string list \<Rightarrow> string \<Rightarrow> bool" for ws :: "string list" where
  \<comment> \<open>the string is a concatenation of sequences of the list\<close>
  concatOf_Nil: "concatOf ws []"
| concatOf_Cons: "w \<in> set ws \<Longrightarrow> concatOf ws s \<Longrightarrow> concatOf ws (w @ s)"

definition startsWithWhiteSpace :: "string \<Rightarrow> bool" where
  "startsWithWhiteSpace s = list_ex (startsWith s) whiteSpaces"

definition endsWithWhiteSpace :: "string \<Rightarrow> bool" where
  "endsWithWhiteSpace s = list_ex (endsWith s) whiteSpaces"

lemma concatOf_append: "concatOf ws a \<Longrightarrow> concatOf ws b \<Longrightarrow> concatOf ws (a @ b)"
  by (induction rule: concatOf.induct) (auto intro: concatOf.intros)

lemma concatOf_single: "w \<in> set ws \<Longrightarrow> concatOf ws w"
  using concatOf_Cons [OF _ concatOf_Nil, of w ws] by simp

lemma concatOf_rev: "concatOf (map rev ws) x \<Longrightarrow> concatOf ws (rev x)"
proof (induction rule: concatOf.induct)
  case concatOf_Nil
  then show ?case by (simp add: concatOf.concatOf_Nil)
next
  case (concatOf_Cons w s)
  then obtain w' where "w' \<in> set ws" "w = rev w'" by auto
  then have "concatOf ws (rev w)" by (simp add: concatOf_single)
  with concatOf_Cons.IH show ?case by (simp add: concatOf_append)
qed

lemma stripLeading_split: "\<exists>leading. s = leading @ stripLeading ws s \<and> concatOf ws leading"
proof (induction ws s rule: stripLeading.induct)
  case (1 ws s)
  show ?case
  proof (cases "find (\<lambda>w. w \<noteq> [] \<and> startsWith s w) ws")
    case None
    then have "stripLeading ws s = s" by (simp add: stripLeading.simps)
    then show ?thesis using concatOf_Nil by force
  next
    case (Some w)
    then have w: "w \<in> set ws" "take (length w) s = w"
      by (auto simp: find_Some_iff startsWith_def)
    from Some have eq: "stripLeading ws s = stripLeading ws (drop (length w) s)"
      by (simp add: stripLeading.simps)
    from "1.IH" [OF Some] obtain l where
      l: "drop (length w) s = l @ stripLeading ws (drop (length w) s)" "concatOf ws l"
      by blast
    have "s = take (length w) s @ drop (length w) s" by simp
    with w(2) l(1) eq have "s = (w @ l) @ stripLeading ws s" by simp
    moreover from w(1) l(2) have "concatOf ws (w @ l)" by (rule concatOf_Cons)
    ultimately show ?thesis by blast
  qed
qed

lemma stripLeading_done:
  "w \<in> set ws \<Longrightarrow> w \<noteq> [] \<Longrightarrow> \<not> startsWith (stripLeading ws s) w"
proof (induction ws s rule: stripLeading.induct)
  case (1 ws s)
  show ?case
  proof (cases "find (\<lambda>w. w \<noteq> [] \<and> startsWith s w) ws")
    case None
    then have "stripLeading ws s = s" by (simp add: stripLeading.simps)
    moreover from None "1.prems" have "\<not> startsWith s w" by (auto simp: find_None_iff)
    ultimately show ?thesis by simp
  next
    case (Some v)
    then have "stripLeading ws s = stripLeading ws (drop (length v) s)"
      by (simp add: stripLeading.simps)
    with "1.IH" [OF Some "1.prems"] show ?thesis by simp
  qed
qed

lemma whiteSpaces_nonempty: "w \<in> set whiteSpaces \<Longrightarrow> w \<noteq> []"
  by (auto simp: whiteSpaces_def)

lemma endsWith_rev: "endsWith s w = startsWith (rev s) (rev w)"
proof (cases "length w \<le> length s")
  case True
  then show ?thesis
    by (simp add: endsWith_def startsWith_def take_rev rev_swap)
next
  case False
  then have "take (length w) (rev s) \<noteq> rev w"
    by (metis length_rev length_take min.cobounded1)
  with False show ?thesis by (simp add: endsWith_def startsWith_def)
qed

lemma startsWith_append: "startsWith p w \<Longrightarrow> startsWith (p @ t) w"
proof -
  assume a: "startsWith p w"
  then have "length w \<le> length p"
    unfolding startsWith_def by (metis length_take min.cobounded1)
  with a show ?thesis by (simp add: startsWith_def)
qed

lemma trimStart_split: "\<exists>leading. s = leading @ trimStart s \<and> concatOf whiteSpaces leading"
  unfolding trimStart_def by (rule stripLeading_split)

lemma trimEnd_split: "\<exists>trailing. s = trimEnd s @ trailing \<and> concatOf whiteSpaces trailing"
proof -
  from stripLeading_split [of "rev s" "map rev whiteSpaces"] obtain l where
    l: "rev s = l @ stripLeading (map rev whiteSpaces) (rev s)" "concatOf (map rev whiteSpaces) l"
    by blast
  from l(1) have "rev (rev s) = rev (l @ stripLeading (map rev whiteSpaces) (rev s))" by simp
  then have "s = trimEnd s @ rev l" by (simp add: trimEnd_def)
  moreover from l(2) have "concatOf whiteSpaces (rev l)" by (rule concatOf_rev)
  ultimately show ?thesis by blast
qed

lemma trim_split:
  "\<exists>leading trailing. s = leading @ trim s @ trailing
     \<and> concatOf whiteSpaces leading \<and> concatOf whiteSpaces trailing"
proof -
  from trimStart_split [of s] obtain l where l: "s = l @ trimStart s" "concatOf whiteSpaces l"
    by blast
  from trimEnd_split [of "trimStart s"] obtain t where
    t: "trimStart s = trim s @ t" "concatOf whiteSpaces t"
    by (auto simp: trim_def)
  from l(1) t(1) have "s = l @ trim s @ t" by simp
  with l(2) t(2) show ?thesis by blast
qed

lemma trim_no_trailing: "\<not> endsWithWhiteSpace (trim s)"
proof
  assume "endsWithWhiteSpace (trim s)"
  then obtain w where w: "w \<in> set whiteSpaces" "endsWith (trim s) w"
    by (auto simp: endsWithWhiteSpace_def list_ex_iff)
  from w(1) have "rev w \<in> set (map rev whiteSpaces)" "rev w \<noteq> []"
    using whiteSpaces_nonempty by auto
  then have "\<not> startsWith (stripLeading (map rev whiteSpaces) (rev (trimStart s))) (rev w)"
    by (rule stripLeading_done)
  with w(2) show False
    by (simp add: endsWith_rev trim_def trimEnd_def)
qed

lemma trim_no_leading: "\<not> startsWithWhiteSpace (trim s)"
proof
  assume "startsWithWhiteSpace (trim s)"
  then obtain w where w: "w \<in> set whiteSpaces" "startsWith (trim s) w"
    by (auto simp: startsWithWhiteSpace_def list_ex_iff)
  from trimEnd_split [of "trimStart s"] obtain t where "trimStart s = trim s @ t"
    by (auto simp: trim_def)
  with w(2) have "startsWith (trimStart s) w"
    using startsWith_append by metis
  moreover from w(1) have "\<not> startsWith (trimStart s) w"
    unfolding trimStart_def using whiteSpaces_nonempty by (intro stripLeading_done) auto
  ultimately show False by contradiction
qed

lemma trim_Nil [simp]: "trim [] = []"
  by code_simp

subsection \<open>The normalizer as the specification words it\<close>

definition sameLetters :: "string \<Rightarrow> string \<Rightarrow> bool" where
  \<comment> \<open>equal up to the case of ASCII letters\<close>
  "sameLetters a b = list_all2 (\<lambda>x y. toLowerChar x = toLowerChar y) a b"

definition stripPrefixCI :: "string \<Rightarrow> string \<Rightarrow> string" where
  "stripPrefixCI p s = (if sameLetters p (take (length p) s) then drop (length p) s else s)"

definition stripSuffixCI :: "string \<Rightarrow> string \<Rightarrow> string" where
  "stripSuffixCI p s =
     (if sameLetters p (drop (length s - length p) s) then take (length s - length p) s else s)"

definition normalize_spec :: "string \<Rightarrow> string" where
  "normalize_spec raw = trim (stripSuffixCI ''V1'' (stripPrefixCI ''B34'' (trim raw)))"

lemma sameLetters_canonicalize: "sameLetters a b \<longleftrightarrow> canonicalize a = canonicalize b"
  by (simp add: sameLetters_def canonicalize_def list_all2_eq [where xs = "map f xs" for f xs]
      list_all2_map1 list_all2_map2)

lemma canonicalize_length [simp]: "length (canonicalize s) = length s"
  by (simp add: canonicalize_def)

lemma canonicalize_B34: "canonicalize ''B34'' = ''b34''"
  by (simp add: canonicalize_def toLowerChar_def)

lemma canonicalize_V1: "canonicalize ''V1'' = ''v1''"
  by (simp add: canonicalize_def toLowerChar_def)

lemma prefixMatch_spec:
  "(case prefixMatch s of Some m \<Rightarrow> drop (length m) s | None \<Rightarrow> s) = stripPrefixCI ''B34'' s"
proof (cases "canonicalize (take 3 s) = ''b34''")
  case True
  then have "length (canonicalize (take 3 s)) = 3" by simp
  then have "length (take 3 s) = 3" by (simp only: canonicalize_length)
  with True show ?thesis
    by (simp add: prefixMatch_def stripPrefixCI_def sameLetters_canonicalize canonicalize_B34
        numeral_3_eq_3)
next
  case False
  then have "''b34'' \<noteq> canonicalize (take 3 s)" by metis
  with False show ?thesis
    by (simp add: prefixMatch_def stripPrefixCI_def sameLetters_canonicalize canonicalize_B34
        numeral_3_eq_3)
qed

lemma suffixMatch_spec:
  "(case suffixMatch s of Some m \<Rightarrow> take (length s - length m) s | None \<Rightarrow> s) = stripSuffixCI ''V1'' s"
proof (cases "canonicalize (drop (length s - 2) s) = ''v1''")
  case True
  then have "length (canonicalize (drop (length s - 2) s)) = 2" by simp
  then have len: "length (drop (length s - 2) s) = 2" by (simp only: canonicalize_length)
  with True show ?thesis
    by (simp add: suffixMatch_def stripSuffixCI_def sameLetters_canonicalize canonicalize_V1
        numeral_2_eq_2)
next
  case False
  then have "''v1'' \<noteq> canonicalize (drop (length s - 2) s)" by metis
  with False show ?thesis
    by (simp add: suffixMatch_def stripSuffixCI_def sameLetters_canonicalize canonicalize_V1
        numeral_2_eq_2)
qed

lemma normalize_spec_Nil: "normalize_spec [] = []"
  by (simp add: normalize_spec_def stripPrefixCI_def stripSuffixCI_def sameLetters_def)

lemma normalizeSKU_refines: "normalizeSKU s = normalize_spec s"
proof (cases "s = []")
  case True
  then show ?thesis by (simp add: normalizeSKU_def normalize_spec_Nil)
next
  case False
  then show ?thesis
    by (simp add: normalizeSKU_def Let_def prefixMatch_spec suffixMatch_spec normalize_spec_def)
qed

lemma stripLeading_keep:
  assumes "\<forall>w \<in> set ws. w \<noteq> [] \<longrightarrow> hd w \<noteq> c"
  shows "stripLeading ws (c # t) = c # t"
proof -
  have "\<not> (w \<noteq> [] \<and> startsWith (c # t) w)" if "w \<in> set ws" for w
  proof
    assume a: "w \<noteq> [] \<and> startsWith (c # t) w"
    then have "hd w = c" by (cases w) (auto simp: startsWith_def)
    with assms that a show False by blast
  qed
  then have "find (\<lambda>w. w \<noteq> [] \<and> startsWith (c # t) w) ws = None"
    by (simp add: find_None_iff)
  then show ?thesis by (subst stripLeading.simps) simp
qed

lemma trim_keep:
  assumes "\<forall>w \<in> set whiteSpaces. hd w \<noteq> c" and "\<forall>w \<in> set whiteSpaces. last w \<noteq> d"
  shows "trim (c # t @ [d]) = c # t @ [d]"
proof -
  from assms(1) have "trimStart (c # t @ [d]) = c # t @ [d]"
    unfolding trimStart_def by (intro stripLeading_keep) blast
  moreover from assms(2) have "\<forall>w \<in> set (map rev whiteSpaces). w \<noteq> [] \<longrightarrow> hd w \<noteq> d"
    by (auto simp: hd_rev)
  then have "stripLeading (map rev whiteSpaces) (d # rev t @ [c]) = d # rev t @ [c]"
    by (rule stripLeading_keep)
  then have "trimEnd (c # t @ [d]) = c # t @ [d]"
    by (simp add: trimEnd_def)
  ultimately show ?thesis by (simp add: trim_def)
qed

lemma normalizeSKU_strips:
  assumes p: "canonicalize [p1, p2, p3] = ''b34''" and q: "canonicalize [q1, q2] = ''v1''"
  shows "normalizeSKU ([p1, p2, p3] @ core @ [q1, q2]) = trim core"
proof -
  from p have p1: "p1 = CHR ''b'' \<or> p1 = CHR ''B''"
    by (auto simp: canonicalize_def toLowerChar_def split: if_splits)
  from q have q2: "q2 = CHR ''1''"
    by (auto simp: canonicalize_def toLowerChar_def split: if_splits)
  have h: "\<forall>w \<in> set whiteSpaces. hd w \<noteq> p1"
    using p1 by (auto simp: whiteSpaces_def)
  have l: "\<forall>w \<in> set whiteSpaces. last w \<noteq> q2"
    using q2 by (auto simp: whiteSpaces_def)
  have "trim (p1 # ([p2, p3] @ core @ [q1]) @ [q2]) = p1 # ([p2, p3] @ core @ [q1]) @ [q2]"
    using h l by (rule trim_keep)
  then have t: "trim ([p1, p2, p3] @ core @ [q1, q2]) = [p1, p2, p3] @ core @ [q1, q2]"
    by simp
  have pm: "prefixMatch ([p1, p2, p3] @ core @ [q1, q2]) = Some [p1, p2, p3]"
    using p by (simp add: prefixMatch_def)
  have sm: "suffixMatch (core @ [q1, q2]) = Some [q1, q2]"
    using q by (simp add: suffixMatch_def)
  show ?thesis
    by (simp add: normalizeSKU_def Let_def t pm sm del: append_Cons)
qed

text \<open>
  C3: for every input string, \<open>normalizeSKU\<close> trims whitespace, strips one leading
  \<open>B34\<close> case-insensitively if present, strips one trailing \<open>V1\<close> case-insensitively
  if present, and trims again. Trimming removes a run of white space at each end and
  leaves none there. The function is total (no input raises), and \<open>B34ABC123V1\<close> gives
  \<open>ABC123\<close>, \<open>abc\<close> gives \<open>abc\<close>, the empty string gives the empty string, and
  \<open>b34\<close> gives the empty string; white space around the identifier and around what
  remains of it is removed, white space inside it is kept.
\<close>

theorem normalizeSKU_spec:
  "normalizeSKU raw = normalize_spec raw
   \<and> (\<exists>leading trailing. raw = leading @ trim raw @ trailing
         \<and> concatOf whiteSpaces leading \<and> concatOf whiteSpaces trailing)
   \<and> \<not> startsWithWhiteSpace (trim raw)
   \<and> \<not> endsWithWhiteSpace (trim raw)
   \<and> normalizeSKU (''B34'' @ core @ ''V1'') = trim core
   \<and> normalizeSKU (''b34'' @ core @ ''v1'') = trim core
   \<and> normalizeSKU ''B34ABC123V1'' = ''ABC123''
   \<and> normalizeSKU ''abc'' = ''abc''
   \<and> normalizeSKU [] = []
   \<and> normalizeSKU ''b34'' = []
   \<and> normalizeSKU ''  B34ABC123V1  '' = ''ABC123''
   \<and> normalizeSKU ''B34 ABC 123 V1'' = ''ABC 123''
   \<and> normalizeSKU ([CHR 0xC2, CHR 0xA0] @ ''b34x1V1'' @ [CHR 0xE2, CHR 0x80, CHR 0xA8, CHR 0x09]) = ''x1''"
proof -
  have u: "normalizeSKU (''B34'' @ core @ ''V1'') = trim core"
    using normalizeSKU_strips [of "CHR ''B''" "CHR ''3''" "CHR ''4''" "CHR ''V''" "CHR ''1''" core]
    by (simp add: canonicalize_B34 canonicalize_V1)
  have l: "normalizeSKU (''b34'' @ core @ ''v1'') = trim core"
    using normalizeSKU_strips [of "CHR ''b''" "CHR ''3''" "CHR ''4''" "CHR ''v''" "CHR ''1''" core]
    by (simp add: canonicalize_def toLowerChar_def)
  have e1: "normalizeSKU ''B34ABC123V1'' = ''ABC123''" by code_simp
  have e2: "normalizeSKU ''abc'' = ''abc''" by code_simp
  have e3: "normalizeSKU [] = []" by code_simp
  have e4: "normalizeSKU ''b34'' = []" by code_simp
  have e5: "normalizeSKU ''  B34ABC123V1  '' = ''ABC123''" by code_simp
  have e6: "normalizeSKU ''B34 ABC 123 V1'' = ''ABC 123''" by code_simp
  have e7: "normalizeSKU ([CHR 0xC2, CHR 0xA0] @ ''b34x1V1'' @ [CHR 0xE2, CHR 0x80, CHR 0xA8, CHR 0x09]) = ''x1''"
    by code_simp
  show ?thesis
    using normalizeSKU_refines [of raw] trim_split [of raw] trim_no_leading [of raw]
      trim_no_trailing [of raw] u l e1 e2 e3 e4 e5 e6 e7
    by blast
qed

section \<open>Records\<close>

text \<open>
  A parsed row (\<open>csv_record\<close>) is an object whose properties are strings: the list of its
  properties in \<open>Object.keys\<close> order (the order of the file's header, for headers that are
  not integers), each name once. A unified record is built by the join: a property of it
  can be present and hold \<open>undefined\<close>, which is \<open>None\<close> here.
\<close>

type_synonym csv_record = "(string \<times> string) list"

type_synonym unified = "(string \<times> string option) list"

definition getProp :: "csv_record \<Rightarrow> string \<Rightarrow> string option" where
  \<comment> \<open>\<open>item[key]\<close>, \<open>None\<close> for \<open>undefined\<close>\<close>
  "getProp item key = map_of item key"

definition uprop :: "unified \<Rightarrow> string \<Rightarrow> string option" where
  \<comment> \<open>\<open>row[key]\<close> of a unified record\<close>
  "uprop row key = (case map_of row key of Some v \<Rightarrow> v | None \<Rightarrow> None)"

definition truthy :: "string option \<Rightarrow> bool" where
  \<comment> \<open>\<open>undefined\<close> and \<open>''\<close> are falsy, every other string is truthy\<close>
  "truthy v = (case v of Some s \<Rightarrow> s \<noteq> [] | None \<Rightarrow> False)"

definition orEmpty :: "string option \<Rightarrow> string" where
  \<comment> \<open>\<open>v || ''\<close>\<close>
  "orEmpty v = (case v of Some s \<Rightarrow> s | None \<Rightarrow> [])"

definition orElse :: "string option \<Rightarrow> string option \<Rightarrow> string option" where
  \<comment> \<open>\<open>a || b\<close>\<close>
  "orElse a b = (if truthy a then a else b)"

section \<open>Field composer\<close>

definition descriptionKeys :: "string list" where
  \<comment> \<open>\<open>`Description ${i}`\<close> for \<open>i\<close> from 1 to 5\<close>
  "descriptionKeys =
     [''Description 1'', ''Description 2'', ''Description 3'', ''Description 4'',
      ''Description 5'']"

definition imageKeys :: "string list" where
  \<comment> \<open>\<open>`image${i}`\<close> for \<open>i\<close> from 1 to 12\<close>
  "imageKeys =
     [''image1'', ''image2'', ''image3'', ''image4'', ''image5'', ''image6'', ''image7'',
      ''image8'', ''image9'', ''image10'', ''image11'', ''image12'']"

definition truthyValues :: "csv_record \<Rightarrow> string list \<Rightarrow> string list" where
  \<comment> \<open>\<open>if (item[key]) descriptions.push(item[key])\<close> over the keys\<close>
  "truthyValues item keys = map (\<lambda>k. orEmpty (getProp item k)) (filter (\<lambda>k. truthy (getProp item k)) keys)"

definition imageFields :: "csv_record \<Rightarrow> unified" where
  \<comment> \<open>\<open>if (item[imageKey]) out[imageKey] = item[imageKey]\<close> over the image keys\<close>
  "imageFields item = map (\<lambda>k. (k, getProp item k)) (filter (\<lambda>k. truthy (getProp item k)) imageKeys)"

definition processTitle :: "csv_record \<Rightarrow> string option \<Rightarrow> string" where
  \<comment> \<open>the title of both loops; \<open>sku\<close> is the identifier the caller strips\<close>
  "processTitle productItem sku =
     (let title = orEmpty (getProp productItem ''Name'') in
      if title \<noteq> [] \<and> truthy (getProp productItem ''Brand'') then
        let brand = orEmpty (getProp productItem ''Brand'');
            title = (if startsWith title brand then trim (drop (length brand) title) else title)
        in if truthy sku \<and> includesStr title (orEmpty sku)
           then trim (replace_first title (orEmpty sku))
           else title
      else title)"

definition mergedProduct :: "string \<Rightarrow> csv_record \<Rightarrow> csv_record \<Rightarrow> unified" where
  "mergedProduct normalizedSku deItem productItem =
     (let descriptions = truthyValues productItem descriptionKeys @
                         truthyValues deItem [''Description 1''];
          mergedDescription = join [CHR 0x0A, CHR 0x0A] descriptions;
          title = processTitle productItem (orElse (getProp deItem ''SKU'') (getProp productItem ''SKU''))
      in [(''SKU'', Some normalizedSku),
          (''EAN'', getProp deItem ''EAN''),
          (''Subcategory'', getProp deItem ''Category''),
          (''Category'', getProp productItem ''Category''),
          (''Price'', getProp deItem ''Price''),
          (''Stock'', getProp deItem ''Stock''),
          (''Material'', getProp productItem ''Material''),
          (''Title'', Some title),
          (''Brand'', getProp productItem ''Brand''),
          (''Product size'', getProp productItem ''Product size/cm''),
          (''Package size Length'', getProp productItem ''Package size/cm L''),
          (''Package size Width'', getProp productItem ''Package size/cm W''),
          (''Package size Height'', getProp productItem ''Package size/cm H''),
          (''Net weight'', getProp productItem ''Net weight/kg''),
          (''Gross weight'', getProp productItem ''Gross weight/kg''),
          (''Volume/CBM'', getProp productItem ''Volume/CBM''),
          (''Color'', getProp productItem ''Color''),
          (''description'', Some mergedDescription)] @ imageFields deItem)"

definition deSoloProduct :: "string \<Rightarrow> csv_record \<Rightarrow> unified" where
  "deSoloProduct normalizedSku deItem =
     [(''SKU'', Some normalizedSku),
      (''EAN'', getProp deItem ''EAN''),
      (''Brand'', Some (orEmpty (getProp deItem ''Brand''))),
      (''Category'', getProp deItem ''Category''),
      (''Title'', Some (orEmpty (getProp deItem ''Title''))),
      (''Price'', getProp deItem ''Price''),
      (''Stock'', getProp deItem ''Stock''),
      (''description'', Some (orEmpty (getProp deItem ''Description 1'')))] @ imageFields deItem"

definition productInfoOnly :: "string \<Rightarrow> csv_record \<Rightarrow> unified" where
  "productInfoOnly normalizedSku productItem =
     (let title = processTitle productItem (getProp productItem ''SKU'');
          descriptions = truthyValues productItem descriptionKeys @
                         truthyValues productItem [''Specifications''];
          mergedDescription = join [CHR 0x0A, CHR 0x0A] descriptions
      in [(''SKU'', Some normalizedSku),
          (''EAN'', Some (orEmpty (getProp productItem ''EAN''))),
          (''Material'', getProp productItem ''Material''),
          (''Title'', Some title),
          (''Subcategory'', Some (orEmpty (getProp productItem ''Title''))),
          (''Category'', getProp productItem ''Category''),
          (''Brand'', getProp productItem ''Brand''),
          (''Product size'', getProp productItem ''Product size/cm''),
          (''Package size Length'', getProp productItem ''Package size/cm L''),
          (''Package size Width'', getProp productItem ''Package size/cm W''),
          (''Package size Height'', getProp productItem ''Package size/cm H''),
          (''Net weight'', getProp productItem ''Net weight/kg''),
          (''Gross weight'', getProp productItem ''Gross weight/kg''),
          (''Volume/CBM'', getProp productItem ''Volume/CBM''),
          (''Color'', getProp productItem ''Color''),
          (''description'', Some mergedDescription)] @ imageFields productItem)"

section \<open>Record joiner\<close>

text \<open>
  A JavaScript \<open>Map\<close> keeps its keys in insertion order: \<open>set\<close> on a key it holds
  replaces the value in place, \<open>set\<close> on a new key appends, \<open>delete\<close> removes. This is
  an association list with \<^const>\<open>AList.update\<close>, \<^const>\<open>AList.delete\<close> and
  \<^const>\<open>map_of\<close>.
\<close>

type_synonym sku_map = "(string \<times> csv_record) list"

definition populate :: "csv_record list \<Rightarrow> sku_map" where
  \<comment> \<open>\<open>data.forEach(item => { if (!item.SKU) return; map.set(normalizeSKU(item.SKU), item) })\<close>\<close>
  "populate data =
     foldl (\<lambda>m item.
              if \<not> truthy (getProp item ''SKU'') then m
              else AList.update (normalizeSKU (orEmpty (getProp item ''SKU''))) item m)
       [] data"

definition primaryStep :: "unified list \<times> sku_map \<Rightarrow> string \<times> csv_record \<Rightarrow> unified list \<times> sku_map" where
  \<comment> \<open>one turn of the loop over \<open>deMap.entries()\<close>\<close>
  "primaryStep st entry =
     (case (st, entry) of ((mergedResults, productMap), (normalizedSku, deItem)) \<Rightarrow>
        (case map_of productMap normalizedSku of
           Some productItem \<Rightarrow>
             (mergedResults @ [mergedProduct normalizedSku deItem productItem],
              AList.delete normalizedSku productMap)
         | None \<Rightarrow> (mergedResults @ [deSoloProduct normalizedSku deItem], productMap)))"

definition mergeFiles :: "csv_record list \<Rightarrow> csv_record list \<Rightarrow> unified list" where
  \<comment> \<open>\<open>mergedResults\<close> of \<open>mergeFiles\<close>, for the contents of the two loaded files\<close>
  "mergeFiles deData productData =
     (let deMap = populate deData;
          productMap = populate productData
      in case foldl primaryStep ([], productMap) deMap of
           (mergedResults, productMap) \<Rightarrow>
             mergedResults @ map (\<lambda>(normalizedSku, productItem). productInfoOnly normalizedSku productItem) productMap)"

subsection \<open>What the join indexes\<close>

definition hasSKU :: "csv_record \<Rightarrow> bool" where
  \<comment> \<open>the record passes \<open>if (!item.SKU) return\<close>\<close>
  "hasSKU item = truthy (getProp item ''SKU'')"

definition keyOf :: "csv_record \<Rightarrow> string" where
  \<comment> \<open>the normalized key of a record\<close>
  "keyOf item = normalizeSKU (orEmpty (getProp item ''SKU''))"

definition skuOf :: "unified \<Rightarrow> string" where
  \<comment> \<open>\<open>row.SKU || ''\<close> of a unified record\<close>
  "skuOf row = orEmpty (uprop row ''SKU'')"

fun firstOccurrences :: "'a list \<Rightarrow> 'a list" where
  \<comment> \<open>the distinct elements of a list, in the order of their first occurrence\<close>
  "firstOccurrences [] = []"
| "firstOccurrences (x # xs) = x # filter (\<lambda>y. y \<noteq> x) (firstOccurrences xs)"

definition keysOf :: "csv_record list \<Rightarrow> string list" where
  \<comment> \<open>the normalized keys of a dataset, one per indexed record, in dataset order\<close>
  "keysOf data = map keyOf (filter hasSKU data)"

lemma set_firstOccurrences [simp]: "set (firstOccurrences xs) = set xs"
  by (induction xs) auto

lemma distinct_firstOccurrences [simp]: "distinct (firstOccurrences xs)"
  by (induction xs) auto

lemma populate_foldl:
  "foldl (\<lambda>m item. if \<not> truthy (getProp item ''SKU'') then m
                     else AList.update (normalizeSKU (orEmpty (getProp item ''SKU''))) item m) m data
   = foldl (\<lambda>m (k, v). AList.update k v m) m (map (\<lambda>item. (keyOf item, item)) (filter hasSKU data))"
  by (induction data arbitrary: m) (auto simp: hasSKU_def keyOf_def)

lemma keys_foldl_update:
  "map fst (foldl (\<lambda>m (k, v). AList.update k v m) m kvs)
   = map fst m @ filter (\<lambda>k. k \<notin> set (map fst m)) (firstOccurrences (map fst kvs))"
proof (induction kvs arbitrary: m)
  case Nil
  then show ?case by simp
next
  case (Cons kv kvs)
  obtain k v where kv: "kv = (k, v)" by (cases kv)
  show ?case
  proof (cases "k \<in> set (map fst m)")
    case True
    have "filter (\<lambda>k. k \<notin> set (map fst m)) (filter (\<lambda>y. y \<noteq> k) (firstOccurrences (map fst kvs)))
          = filter (\<lambda>k. k \<notin> set (map fst m)) (firstOccurrences (map fst kvs))"
      using True by (auto intro!: filter_cong)
    with True show ?thesis
      by (simp add: kv Cons.IH update_keys)
  next
    case False
    have "filter (\<lambda>x. x \<noteq> k \<and> x \<notin> set (map fst m)) (firstOccurrences (map fst kvs))
          = filter (\<lambda>k. k \<notin> set (map fst m)) (filter (\<lambda>y. y \<noteq> k) (firstOccurrences (map fst kvs)))"
      by (auto intro!: filter_cong)
    with False show ?thesis
      by (simp add: kv Cons.IH update_keys)
  qed
qed

lemma map_of_foldl_update:
  "map_of (foldl (\<lambda>m (k, v). AList.update k v m) m kvs) = map_of m ++ map_of (rev kvs)"
  by (induction kvs arbitrary: m) (auto simp: update_conv' fun_eq_iff map_add_def split: option.splits)

lemma populate_keys: "map fst (populate data) = firstOccurrences (keysOf data)"
  unfolding populate_def populate_foldl
  by (simp add: keys_foldl_update keysOf_def comp_def)

lemma populate_distinct: "distinct (map fst (populate data))"
  by (simp add: populate_keys)

lemma populate_map_of:
  "map_of (populate data) = map_of (rev (map (\<lambda>item. (keyOf item, item)) (filter hasSKU data)))"
  unfolding populate_def populate_foldl
  by (simp add: map_of_foldl_update)

definition primaryRecord :: "sku_map \<Rightarrow> string \<times> csv_record \<Rightarrow> unified" where
  \<comment> \<open>the record the primary loop emits for an entry, given the full secondary index\<close>
  "primaryRecord productMap entry =
     (case entry of (k, deItem) \<Rightarrow>
        (case map_of productMap k of
           Some productItem \<Rightarrow> mergedProduct k deItem productItem
         | None \<Rightarrow> deSoloProduct k deItem))"

lemma primaryStep_pair:
  "primaryStep (res, pm) (k, d) =
     (case map_of pm k of
        Some p \<Rightarrow> (res @ [mergedProduct k d p], AList.delete k pm)
      | None \<Rightarrow> (res @ [deSoloProduct k d], pm))"
  by (simp add: primaryStep_def)

lemma primaryRecord_pair:
  "primaryRecord pm (k, d) =
     (case map_of pm k of Some p \<Rightarrow> mergedProduct k d p | None \<Rightarrow> deSoloProduct k d)"
  by (simp add: primaryRecord_def)

lemma primary_loop:
  "distinct (map fst deMap) \<Longrightarrow>
   foldl primaryStep (res, pm) deMap
   = (res @ map (primaryRecord pm) deMap, filter (\<lambda>(k, p). k \<notin> set (map fst deMap)) pm)"
proof (induction deMap arbitrary: res pm)
  case Nil
  then show ?case by simp
next
  case (Cons e deMap)
  obtain k d where e: "e = (k, d)" by (cases e)
  from Cons.prems have nin: "k \<notin> set (map fst deMap)" and dist: "distinct (map fst deMap)"
    by (auto simp: e)
  have same: "map (primaryRecord (AList.delete k pm)) deMap = map (primaryRecord pm) deMap"
  proof (rule map_cong [OF refl])
    fix x assume "x \<in> set deMap"
    then have "fst x \<noteq> k" using nin by auto
    then show "primaryRecord (AList.delete k pm) x = primaryRecord pm x"
      by (cases x) (simp add: primaryRecord_def delete_conv')
  qed
  have filt: "filter (\<lambda>(k', p). k' \<notin> set (map fst deMap)) (AList.delete k pm)
              = filter (\<lambda>(k', p). k' \<notin> set (map fst (e # deMap))) pm"
    by (auto simp: AList.delete_eq e intro!: filter_cong)
  show ?case
  proof (cases "map_of pm k")
    case None
    then have "k \<notin> fst ` set pm" by (simp add: map_of_eq_None_iff)
    then have "\<And>b. (k, b) \<notin> set pm" by force
    then have "filter (\<lambda>(k', p). k' \<notin> set (map fst deMap)) pm
              = filter (\<lambda>(k', p). k' \<notin> set (map fst (e # deMap))) pm"
      by (auto simp: e intro!: filter_cong)
    with None show ?thesis
      by (simp add: e primaryStep_pair Cons.IH [OF dist] primaryRecord_pair del: set_map)
  next
    case (Some p)
    then show ?thesis
      using same filt by (simp add: e primaryStep_pair Cons.IH [OF dist] primaryRecord_pair del: set_map)
  qed
qed

lemma mergeFiles_eq:
  "mergeFiles deData productData
   = map (primaryRecord (populate productData)) (populate deData)
     @ map (\<lambda>(k, p). productInfoOnly k p)
         (filter (\<lambda>(k, p). k \<notin> set (keysOf deData)) (populate productData))"
  by (simp add: mergeFiles_def primary_loop [OF populate_distinct] populate_keys)

subsection \<open>Every key once, by the branch its membership selects\<close>

datatype branch = BothPresent | PrimaryOnly | SecondaryOnly

definition branchOfKey :: "string set \<Rightarrow> string set \<Rightarrow> string \<Rightarrow> branch" where
  \<comment> \<open>the branch that membership of a key in the primary keys \<open>P\<close> and the secondary keys \<open>S\<close> selects\<close>
  "branchOfKey P S k = (if k \<in> P then (if k \<in> S then BothPresent else PrimaryOnly) else SecondaryOnly)"

definition producedBy :: "branch \<Rightarrow> sku_map \<Rightarrow> sku_map \<Rightarrow> unified \<Rightarrow> bool" where
  \<comment> \<open>the row is what the branch builds from the indexed records of the row's key\<close>
  "producedBy b deMap productMap row =
     (case b of
        BothPresent \<Rightarrow>
          (case (map_of deMap (skuOf row), map_of productMap (skuOf row)) of
             (Some d, Some p) \<Rightarrow> row = mergedProduct (skuOf row) d p
           | _ \<Rightarrow> False)
      | PrimaryOnly \<Rightarrow>
          (case map_of deMap (skuOf row) of
             Some d \<Rightarrow> row = deSoloProduct (skuOf row) d
           | None \<Rightarrow> False)
      | SecondaryOnly \<Rightarrow>
          (case map_of productMap (skuOf row) of
             Some p \<Rightarrow> row = productInfoOnly (skuOf row) p
           | None \<Rightarrow> False))"

lemma skuOf_mergedProduct [simp]: "skuOf (mergedProduct k d p) = k"
  by (simp add: skuOf_def uprop_def mergedProduct_def Let_def orEmpty_def)

lemma skuOf_deSoloProduct [simp]: "skuOf (deSoloProduct k d) = k"
  by (simp add: skuOf_def uprop_def deSoloProduct_def orEmpty_def)

lemma skuOf_productInfoOnly [simp]: "skuOf (productInfoOnly k p) = k"
  by (simp add: skuOf_def uprop_def productInfoOnly_def Let_def orEmpty_def)

lemma skuOf_primaryRecord [simp]: "skuOf (primaryRecord pm e) = fst e"
  by (cases e) (simp add: primaryRecord_pair split: option.splits)

lemma secondary_keys:
  "map fst (filter (\<lambda>(k, p). k \<notin> A) m) = filter (\<lambda>k. k \<notin> A) (map fst m)"
  by (induction m) auto

lemma mergeFiles_skus:
  "map skuOf (mergeFiles deData productData)
   = firstOccurrences (keysOf deData)
     @ filter (\<lambda>k. k \<notin> set (keysOf deData)) (firstOccurrences (keysOf productData))"
proof -
  have 1: "map skuOf (map (primaryRecord (populate productData)) (populate deData))
           = map fst (populate deData)"
    by (simp add: comp_def)
  have 2: "map skuOf (map (\<lambda>(k, p). productInfoOnly k p) m) = map fst m" for m
    by (induction m) auto
  show ?thesis
    unfolding mergeFiles_eq map_append 1 2 secondary_keys populate_keys ..
qed

lemma populate_dom: "fst ` set (populate data) = set (keysOf data)"
proof -
  have "fst ` set (populate data) = set (map fst (populate data))" by simp
  then show ?thesis by (simp only: populate_keys set_firstOccurrences)
qed

lemma map_of_populate_Some:
  "(k, d) \<in> set (populate data) \<Longrightarrow> map_of (populate data) k = Some d"
  by (simp add: populate_distinct)

lemma map_of_populate_None:
  "k \<notin> set (keysOf data) \<Longrightarrow> map_of (populate data) k = None"
  by (simp add: map_of_eq_None_iff populate_dom)

lemma map_of_populate_in:
  "k \<in> set (keysOf data) \<Longrightarrow> \<exists>d. map_of (populate data) k = Some d"
  using map_of_populate_None populate_dom
  by (metis map_of_eq_None_iff not_None_eq)

lemma mergeFiles_branch:
  assumes "row \<in> set (mergeFiles deData productData)"
  shows "producedBy (branchOfKey (set (keysOf deData)) (set (keysOf productData)) (skuOf row))
           (populate deData) (populate productData) row"
proof -
  from assms consider
    (primary) e where "e \<in> set (populate deData)" "row = primaryRecord (populate productData) e"
  | (secondary) k p where "(k, p) \<in> set (populate productData)" "k \<notin> set (keysOf deData)"
      "row = productInfoOnly k p"
    unfolding mergeFiles_eq by auto
  then show ?thesis
  proof cases
    case primary
    obtain k d where e: "e = (k, d)" by (cases e)
    from primary(1) have kd: "map_of (populate deData) k = Some d"
      by (simp add: e map_of_populate_Some)
    from primary(1) have kP: "k \<in> set (keysOf deData)"
      using populate_dom [of deData] by (force simp: e)
    show ?thesis
    proof (cases "map_of (populate productData) k")
      case None
      then have "k \<notin> set (keysOf productData)"
        using map_of_populate_in by fastforce
      with None kd kP show ?thesis
        by (simp add: primary(2) e primaryRecord_pair producedBy_def branchOfKey_def)
    next
      case (Some p)
      then have "k \<in> set (keysOf productData)"
        using map_of_populate_None by fastforce
      with Some kd kP show ?thesis
        by (simp add: primary(2) e primaryRecord_pair producedBy_def branchOfKey_def)
    qed
  next
    case secondary
    from secondary(1) have "map_of (populate productData) k = Some p"
      by (simp add: map_of_populate_Some)
    with secondary(2) show ?thesis
      by (simp add: secondary(3) producedBy_def branchOfKey_def)
  qed
qed

lemma distinct_skus: "distinct (map skuOf (mergeFiles deData productData))"
  unfolding mergeFiles_skus by (auto simp: distinct_filter)

lemma set_skus:
  "set (map skuOf (mergeFiles deData productData)) = set (keysOf deData) \<union> set (keysOf productData)"
  unfolding mergeFiles_skus by auto

lemma length_mergeFiles:
  "length (mergeFiles deData productData) = card (set (keysOf deData) \<union> set (keysOf productData))"
proof -
  have "length (mergeFiles deData productData) = length (map skuOf (mergeFiles deData productData))"
    by simp
  also have "\<dots> = card (set (map skuOf (mergeFiles deData productData)))"
    using distinct_skus by (simp only: distinct_card)
  finally show ?thesis by (simp only: set_skus)
qed

text \<open>
  C1: for every pair of input datasets, the identifiers of the join output are distinct and
  are exactly the normalized keys of the records either input indexes; every output record
  is the one built by the branch (both-present, primary-only, secondary-only) that the
  membership of its key in the two key sets selects; and when the two key sets are disjoint
  the output has as many records as there are distinct primary keys plus distinct
  secondary keys.
\<close>

theorem join_each_key_once:
  "distinct (map skuOf (mergeFiles deData productData))
   \<and> set (map skuOf (mergeFiles deData productData)) = set (keysOf deData) \<union> set (keysOf productData)
   \<and> (\<forall>row \<in> set (mergeFiles deData productData).
         producedBy (branchOfKey (set (keysOf deData)) (set (keysOf productData)) (skuOf row))
           (populate deData) (populate productData) row)
   \<and> (set (keysOf deData) \<inter> set (keysOf productData) = {} \<longrightarrow>
        length (mergeFiles deData productData)
        = card (set (keysOf deData)) + card (set (keysOf productData)))"
proof -
  have "set (keysOf deData) \<inter> set (keysOf productData) = {} \<Longrightarrow>
        card (set (keysOf deData) \<union> set (keysOf productData))
        = card (set (keysOf deData)) + card (set (keysOf productData))"
    by (simp add: card_Un_disjoint)
  then have "set (keysOf deData) \<inter> set (keysOf productData) = {} \<longrightarrow>
        length (mergeFiles deData productData)
        = card (set (keysOf deData)) + card (set (keysOf productData))"
    by (simp only: length_mergeFiles) blast
  moreover have "\<forall>row \<in> set (mergeFiles deData productData).
         producedBy (branchOfKey (set (keysOf deData)) (set (keysOf productData)) (skuOf row))
           (populate deData) (populate productData) row"
    using mergeFiles_branch by blast
  ultimately show ?thesis
    using distinct_skus [of deData productData] set_skus [of deData productData] by blast
qed

definition disjointDe :: "csv_record list" where
  "disjointDe = [[(''SKU'', ''B34A1V1''), (''Price'', ''10'')], [(''SKU'', []), (''Price'', ''7'')]]"

definition disjointProduct :: "csv_record list" where
  "disjointProduct = [[(''SKU'', ''C3''), (''Name'', ''Acme C3 Lamp''), (''Brand'', ''Acme'')]]"

theorem join_each_key_once_witness:
  "length (mergeFiles disjointDe disjointProduct) = 2
   \<and> map skuOf (mergeFiles disjointDe disjointProduct) = [''A1'', ''C3'']
   \<and> producedBy PrimaryOnly (populate disjointDe) (populate disjointProduct)
         (deSoloProduct ''A1'' [(''SKU'', ''B34A1V1''), (''Price'', ''10'')])"
proof -
  have kd: "keysOf disjointDe = [''A1'']" by code_simp
  have kp: "keysOf disjointProduct = [''C3'']" by code_simp
  have out: "mergeFiles disjointDe disjointProduct =
      [deSoloProduct ''A1'' [(''SKU'', ''B34A1V1''), (''Price'', ''10'')],
       productInfoOnly ''C3'' [(''SKU'', ''C3''), (''Name'', ''Acme C3 Lamp''), (''Brand'', ''Acme'')]]"
    by code_simp
  have disj: "set (keysOf disjointDe) \<inter> set (keysOf disjointProduct) = {}"
    by (simp add: kd kp)
  from join_each_key_once [of disjointDe disjointProduct] disj
  have len: "length (mergeFiles disjointDe disjointProduct)
        = card (set (keysOf disjointDe)) + card (set (keysOf disjointProduct))"
    and br: "\<forall>row \<in> set (mergeFiles disjointDe disjointProduct).
         producedBy (branchOfKey (set (keysOf disjointDe)) (set (keysOf disjointProduct)) (skuOf row))
           (populate disjointDe) (populate disjointProduct) row"
    by blast+
  from br have "producedBy (branchOfKey {''A1''} {''C3''} ''A1'') (populate disjointDe) (populate disjointProduct)
         (deSoloProduct ''A1'' [(''SKU'', ''B34A1V1''), (''Price'', ''10'')])"
    by (simp add: out kd kp)
  moreover have "branchOfKey {''A1''} {''C3''} ''A1'' = PrimaryOnly"
    by (simp add: branchOfKey_def)
  ultimately show ?thesis
    using len by (simp add: kd kp) (simp add: out)
qed

subsection \<open>Order of the unified set\<close>

definition groupedOrder :: "csv_record list \<Rightarrow> csv_record list \<Rightarrow> unified list" where
  \<comment> \<open>the order as the specification words it: the both-present records, then the
     primary-only records, each group in primary order, then the secondary-only records\<close>
  "groupedOrder deData productData =
     (let deMap = populate deData;
          productMap = populate productData
      in map (primaryRecord productMap) (filter (\<lambda>(k, d). map_of productMap k \<noteq> None) deMap)
         @ map (primaryRecord productMap) (filter (\<lambda>(k, d). map_of productMap k = None) deMap)
         @ map (\<lambda>(k, p). productInfoOnly k p) (filter (\<lambda>(k, p). map_of deMap k = None) productMap))"

definition orderDe :: "csv_record list" where
  "orderDe = [[(''SKU'', ''A'')], [(''SKU'', ''B'')]]"

definition orderProduct :: "csv_record list" where
  "orderProduct = [[(''SKU'', ''B''), (''Name'', ''Lamp'')]]"

theorem join_order_counterexample:
  "mergeFiles orderDe orderProduct \<noteq> groupedOrder orderDe orderProduct
   \<and> mergeFiles orderDe orderProduct
       = [deSoloProduct ''A'' [(''SKU'', ''A'')],
          mergedProduct ''B'' [(''SKU'', ''B'')] [(''SKU'', ''B''), (''Name'', ''Lamp'')]]
   \<and> groupedOrder orderDe orderProduct
       = [mergedProduct ''B'' [(''SKU'', ''B'')] [(''SKU'', ''B''), (''Name'', ''Lamp'')],
          deSoloProduct ''A'' [(''SKU'', ''A'')]]"
proof -
  have 1: "mergeFiles orderDe orderProduct
       = [deSoloProduct ''A'' [(''SKU'', ''A'')],
          mergedProduct ''B'' [(''SKU'', ''B'')] [(''SKU'', ''B''), (''Name'', ''Lamp'')]]"
    by code_simp
  have 2: "groupedOrder orderDe orderProduct
       = [mergedProduct ''B'' [(''SKU'', ''B'')] [(''SKU'', ''B''), (''Name'', ''Lamp'')],
          deSoloProduct ''A'' [(''SKU'', ''A'')]]"
    by code_simp
  have "skuOf (deSoloProduct ''A'' [(''SKU'', ''A'')]) \<noteq>
        skuOf (mergedProduct ''B'' [(''SKU'', ''B'')] [(''SKU'', ''B''), (''Name'', ''Lamp'')])"
    by simp
  then have "deSoloProduct ''A'' [(''SKU'', ''A'')] \<noteq>
        mergedProduct ''B'' [(''SKU'', ''B'')] [(''SKU'', ''B''), (''Name'', ''Lamp'')]"
    by metis
  with 1 2 show ?thesis by simp
qed

text \<open>
  C2, as the code has it: the records of the primary keys come first, both-present and
  primary-only records interleaved in the order in which their keys first occur in the
  primary dataset, followed by the secondary-only records in the order in which their
  keys first occur in the secondary dataset.
\<close>

theorem join_order:
  "mergeFiles deData productData
   = map (primaryRecord (populate productData)) (populate deData)
     @ map (\<lambda>(k, p). productInfoOnly k p)
         (filter (\<lambda>(k, p). k \<notin> set (keysOf deData)) (populate productData))
   \<and> map fst (populate deData) = firstOccurrences (keysOf deData)
   \<and> map fst (populate productData) = firstOccurrences (keysOf productData)
   \<and> map skuOf (mergeFiles deData productData)
       = firstOccurrences (keysOf deData)
         @ filter (\<lambda>k. k \<notin> set (keysOf deData)) (firstOccurrences (keysOf productData))"
  using mergeFiles_eq [of deData productData] populate_keys [of deData]
    populate_keys [of productData] mergeFiles_skus [of deData productData]
  by blast

subsection \<open>Identifiers that normalize to the empty string\<close>

definition lastWithKey :: "csv_record list \<Rightarrow> string \<Rightarrow> csv_record option" where
  \<comment> \<open>the last record of the dataset that is indexed under the key\<close>
  "lastWithKey data k =
     (case rev (filter (\<lambda>item. hasSKU item \<and> keyOf item = k) data) of
        [] \<Rightarrow> None
      | item # _ \<Rightarrow> Some item)"

lemma map_of_entries:
  "map_of (rev (map (\<lambda>item. (keyOf item, item)) xs)) k
   = (case rev (filter (\<lambda>item. keyOf item = k) xs) of [] \<Rightarrow> None | item # _ \<Rightarrow> Some item)"
  by (induction xs rule: rev_induct) (auto split: list.splits)

lemma populate_lookup: "map_of (populate data) k = lastWithKey data k"
proof -
  have "filter (\<lambda>item. keyOf item = k) (filter hasSKU data)
        = filter (\<lambda>item. hasSKU item \<and> keyOf item = k) data"
    by (induction data) auto
  then show ?thesis
    by (simp add: populate_map_of map_of_entries lastWithKey_def)
qed

lemma populate_skip:
  "\<not> hasSKU item \<Longrightarrow> populate (xs @ item # ys) = populate (xs @ ys)"
  by (simp add: populate_def hasSKU_def)

lemma one_row_per_sku:
  "distinct (map f xs) \<Longrightarrow> k \<in> f ` set xs \<Longrightarrow> length (filter (\<lambda>x. f x = k) xs) = 1"
proof (induction xs)
  case Nil
  then show ?case by simp
next
  case (Cons x xs)
  show ?case
  proof (cases "f x = k")
    case True
    from Cons.prems(1) have "f x \<notin> f ` set xs" by simp
    with True have "\<forall>y \<in> set xs. f y \<noteq> k" by blast
    then have "filter (\<lambda>x. f x = k) xs = []"
      by (simp add: filter_empty_conv)
    with True show ?thesis by simp
  next
    case False
    with Cons show ?thesis by auto
  qed
qed

lemma keyOf_in_keysOf: "item \<in> set data \<Longrightarrow> hasSKU item \<Longrightarrow> keyOf item \<in> set (keysOf data)"
  by (auto simp: keysOf_def)

text \<open>
  C10: \<open>B34\<close>, \<open>V1\<close> and \<open>b34v1\<close> normalize to the empty string. A record whose raw
  identifier is non-empty is indexed under its normalized key, also when that key is empty:
  the index holds, under each key, the last record of the dataset with that key (last
  wins), and a record with an absent or empty raw identifier is skipped. When either input
  has a record with a non-empty identifier that normalizes to the empty string, the join
  output has exactly one record whose identifier is the empty string.
\<close>

theorem empty_key_is_indexed:
  "normalizeSKU ''B34'' = [] \<and> normalizeSKU ''V1'' = [] \<and> normalizeSKU ''b34v1'' = []
   \<and> map_of (populate data) k = lastWithKey data k
   \<and> (item \<in> set data \<and> hasSKU item \<and> keyOf item = [] \<longrightarrow>
        [] \<in> fst ` set (populate data) \<and> lastWithKey data [] \<noteq> None)
   \<and> (\<not> hasSKU skipped \<longrightarrow> populate (xs @ skipped # ys) = populate (xs @ ys))
   \<and> ((\<exists>item \<in> set deData \<union> set productData. hasSKU item \<and> keyOf item = []) \<longrightarrow>
        length (filter (\<lambda>row. skuOf row = []) (mergeFiles deData productData)) = 1)"
proof -
  have n1: "normalizeSKU ''B34'' = []" by code_simp
  have n2: "normalizeSKU ''V1'' = []" by code_simp
  have n3: "normalizeSKU ''b34v1'' = []" by code_simp
  have idx: "item \<in> set data \<and> hasSKU item \<and> keyOf item = [] \<longrightarrow>
        [] \<in> fst ` set (populate data) \<and> lastWithKey data [] \<noteq> None"
  proof
    assume a: "item \<in> set data \<and> hasSKU item \<and> keyOf item = []"
    then have "[] \<in> set (keysOf data)" using keyOf_in_keysOf by metis
    then have in_dom: "[] \<in> fst ` set (populate data)" by (simp only: populate_dom)
    then have "map_of (populate data) [] \<noteq> None" by (simp add: map_of_eq_None_iff)
    with in_dom show "[] \<in> fst ` set (populate data) \<and> lastWithKey data [] \<noteq> None"
      by (simp add: populate_lookup)
  qed
  have one: "(\<exists>item \<in> set deData \<union> set productData. hasSKU item \<and> keyOf item = []) \<longrightarrow>
        length (filter (\<lambda>row. skuOf row = []) (mergeFiles deData productData)) = 1"
  proof
    assume "\<exists>item \<in> set deData \<union> set productData. hasSKU item \<and> keyOf item = []"
    then have "[] \<in> set (keysOf deData) \<union> set (keysOf productData)"
      using keyOf_in_keysOf by (metis Un_iff)
    then have "[] \<in> skuOf ` set (mergeFiles deData productData)"
      using set_skus [of deData productData] by simp
    then show "length (filter (\<lambda>row. skuOf row = []) (mergeFiles deData productData)) = 1"
      using one_row_per_sku [OF distinct_skus] by blast
  qed
  show ?thesis
    using n1 n2 n3 idx one populate_lookup [of data k] populate_skip [of skipped xs ys] by blast
qed

definition emptyKeyDe :: "csv_record list" where
  "emptyKeyDe = [[(''SKU'', ''B34''), (''Price'', ''1'')], [(''SKU'', ''V1''), (''Price'', ''2'')],
                 [(''Price'', ''3'')]]"

definition emptyKeyProduct :: "csv_record list" where
  "emptyKeyProduct = [[(''SKU'', ''b34v1''), (''Name'', ''Lamp'')]]"

theorem empty_key_is_indexed_witness:
  "map_of (populate emptyKeyDe) [] = Some [(''SKU'', ''V1''), (''Price'', ''2'')]
   \<and> populate ([[(''SKU'', ''B34''), (''Price'', ''1'')], [(''SKU'', ''V1''), (''Price'', ''2'')]]
                @ [(''Price'', ''3'')] # [])
     = populate ([[(''SKU'', ''B34''), (''Price'', ''1'')], [(''SKU'', ''V1''), (''Price'', ''2'')]] @ [])
   \<and> [] \<in> fst ` set (populate emptyKeyDe)
   \<and> length (filter (\<lambda>row. skuOf row = []) (mergeFiles emptyKeyDe emptyKeyProduct)) = 1"
proof -
  have h1: "hasSKU [(''SKU'', ''V1''), (''Price'', ''2'')]" by code_simp
  have h2: "keyOf [(''SKU'', ''V1''), (''Price'', ''2'')] = []" by code_simp
  have h3: "[(''SKU'', ''V1''), (''Price'', ''2'')] \<in> set emptyKeyDe"
    by (simp add: emptyKeyDe_def)
  have h4: "\<not> hasSKU [(''Price'', ''3'')]" by code_simp
  have h5: "lastWithKey emptyKeyDe [] = Some [(''SKU'', ''V1''), (''Price'', ''2'')]" by code_simp
  have h6: "\<exists>item \<in> set emptyKeyDe \<union> set emptyKeyProduct. hasSKU item \<and> keyOf item = []"
    using h1 h2 h3 by blast
  show ?thesis
    using empty_key_is_indexed [where data = emptyKeyDe and k = "[]"
        and item = "[(''SKU'', ''V1''), (''Price'', ''2'')]" and skipped = "[(''Price'', ''3'')]"
        and xs = "[[(''SKU'', ''B34''), (''Price'', ''1'')], [(''SKU'', ''V1''), (''Price'', ''2'')]]"
        and ys = "[]" and deData = emptyKeyDe and productData = emptyKeyProduct]
      h1 h2 h3 h4 h5 h6
    by simp
qed

section \<open>Title composition\<close>

definition occursAt :: "string \<Rightarrow> string \<Rightarrow> nat \<Rightarrow> bool" where
  \<comment> \<open>the pattern \<open>p\<close> occurs in \<open>t\<close> at index \<open>i\<close>\<close>
  "occursAt t p i = (i + length p \<le> length t \<and> take (length p) (drop i t) = p)"

definition stripBrand :: "string \<Rightarrow> string \<Rightarrow> string" where
  \<comment> \<open>the name without a leading brand, trimmed when the brand was stripped\<close>
  "stripBrand brand name = (if startsWith name brand then trim (drop (length brand) name) else name)"

definition stripIdentifier :: "string option \<Rightarrow> string \<Rightarrow> string" where
  \<comment> \<open>the title without the first occurrence of the identifier, trimmed when one was removed\<close>
  "stripIdentifier sku title =
     (if truthy sku \<and> includesStr title (orEmpty sku) then trim (replace_first title (orEmpty sku))
      else title)"

lemma startsWith_occursAt: "startsWith t p = occursAt t p 0"
proof -
  have "take (length p) t = p \<Longrightarrow> length p \<le> length t"
    by (metis length_take min.cobounded1)
  then show ?thesis by (auto simp: startsWith_def occursAt_def)
qed

lemma occursAt_Cons: "occursAt (c # cs) p (Suc i) = occursAt cs p i"
  by (simp add: occursAt_def)

lemma indexOf_Some:
  "indexOf t p = Some i \<Longrightarrow> occursAt t p i \<and> (\<forall>j<i. \<not> occursAt t p j)"
proof (induction t arbitrary: i)
  case Nil
  then show ?case by (auto simp: occursAt_def split: if_splits)
next
  case (Cons c cs)
  show ?case
  proof (cases "startsWith (c # cs) p")
    case True
    with Cons.prems show ?thesis by (simp add: startsWith_occursAt)
  next
    case False
    with Cons.prems obtain i' where i': "indexOf cs p = Some i'" "i = Suc i'" by auto
    from Cons.IH [OF i'(1)] have ih: "occursAt cs p i'" "\<forall>j<i'. \<not> occursAt cs p j" by auto
    have "\<not> occursAt (c # cs) p j" if "j < i" for j
    proof (cases j)
      case 0
      with False show ?thesis by (simp add: startsWith_occursAt)
    next
      case (Suc j')
      with that i'(2) ih(2) show ?thesis by (simp add: occursAt_Cons)
    qed
    with ih(1) i'(2) show ?thesis by (simp add: occursAt_Cons)
  qed
qed

lemma indexOf_None: "indexOf t p = None \<Longrightarrow> \<not> occursAt t p i"
proof (induction t arbitrary: i)
  case Nil
  then show ?case by (auto simp: occursAt_def split: if_splits)
next
  case (Cons c cs)
  from Cons.prems have ns: "\<not> startsWith (c # cs) p" and n: "indexOf cs p = None"
    by (auto split: if_splits)
  show ?case
  proof (cases i)
    case 0
    with ns show ?thesis by (simp add: startsWith_occursAt)
  next
    case (Suc i')
    with Cons.IH [OF n] show ?thesis by (simp add: occursAt_Cons)
  qed
qed

lemma includesStr_iff: "includesStr t p = (\<exists>i. occursAt t p i)"
proof
  assume "includesStr t p"
  then obtain i where "indexOf t p = Some i" by (auto simp: includesStr_def)
  then show "\<exists>i. occursAt t p i" using indexOf_Some by blast
next
  assume "\<exists>i. occursAt t p i"
  then show "includesStr t p" using indexOf_None by (auto simp: includesStr_def)
qed

lemma indexOf_first:
  assumes "occursAt t p i" and "\<forall>j<i. \<not> occursAt t p j"
  shows "indexOf t p = Some i"
proof (cases "indexOf t p")
  case None
  with assms(1) show ?thesis using indexOf_None by blast
next
  case (Some i')
  from indexOf_Some [OF Some] have "occursAt t p i'" "\<forall>j<i'. \<not> occursAt t p j" by auto
  with assms have "\<not> i' < i" "\<not> i < i'" by auto
  then show ?thesis using Some by simp
qed

lemma processTitle_falsy:
  "\<not> truthy (getProp productItem ''Name'') \<or> \<not> truthy (getProp productItem ''Brand'') \<Longrightarrow>
   processTitle productItem sku = orEmpty (getProp productItem ''Name'')"
  by (auto simp: processTitle_def Let_def truthy_def orEmpty_def split: option.splits)

lemma processTitle_strips:
  "getProp productItem ''Name'' = Some name \<Longrightarrow> name \<noteq> [] \<Longrightarrow>
   getProp productItem ''Brand'' = Some brand \<Longrightarrow> brand \<noteq> [] \<Longrightarrow>
   processTitle productItem sku = stripIdentifier sku (stripBrand brand name)"
  by (simp add: processTitle_def Let_def truthy_def orEmpty_def stripIdentifier_def stripBrand_def)

lemma stripIdentifier_first:
  assumes "s \<noteq> []" and "occursAt title s i" and "\<forall>j<i. \<not> occursAt title s j"
  shows "stripIdentifier (Some s) title = trim (take i title @ drop (i + length s) title)"
proof -
  from assms(2,3) have "indexOf title s = Some i" by (rule indexOf_first)
  with assms(1) show ?thesis
    by (simp add: stripIdentifier_def truthy_def orEmpty_def includesStr_def replace_first_def)
qed

lemma title_of_mergedProduct:
  "uprop (mergedProduct k deItem productItem) ''Title''
   = Some (processTitle productItem (orElse (getProp deItem ''SKU'') (getProp productItem ''SKU'')))"
  by (simp add: mergedProduct_def Let_def uprop_def)

definition titlePrimary :: csv_record where
  "titlePrimary = [(''SKU'', ''B34X1V1''), (''Price'', ''10''), (''Stock'', ''5'')]"

definition titleSecondary :: csv_record where
  "titleSecondary = [(''SKU'', ''X1''), (''Name'', ''Acme X1 Widget''), (''Brand'', ''Acme''),
                     (''Category'', ''Widgets''), (''Description 1'', ''d1'')]"

theorem merged_title_counterexample:
  "mergeFiles [titlePrimary] [titleSecondary] = [mergedProduct ''X1'' titlePrimary titleSecondary]
   \<and> uprop (mergedProduct ''X1'' titlePrimary titleSecondary) ''Title'' = Some ''X1 Widget''
   \<and> includesStr ''X1 Widget'' ''X1''"
proof -
  have "mergeFiles [titlePrimary] [titleSecondary] = [mergedProduct ''X1'' titlePrimary titleSecondary]"
    by code_simp
  moreover have "uprop (mergedProduct ''X1'' titlePrimary titleSecondary) ''Title'' = Some ''X1 Widget''"
    by code_simp
  moreover have "includesStr ''X1 Widget'' ''X1''"
    by code_simp
  ultimately show ?thesis by blast
qed

text \<open>
  C4, as the code has it: for a both-present item the output Title is computed from the
  secondary record's name (the empty string when absent). When the name or the secondary
  brand is empty or absent the Title is the name unchanged. Otherwise the brand is
  stripped when the name starts with it, and what is left is trimmed; then the first
  occurrence of the raw identifier (the primary record's raw SKU when non-empty, else the
  secondary's) is removed, and the result trimmed, when the string contains it, and the
  string is left alone when it does not.
\<close>

theorem merged_title:
  "uprop (mergedProduct k deItem productItem) ''Title''
   = Some (processTitle productItem (orElse (getProp deItem ''SKU'') (getProp productItem ''SKU'')))
   \<and> (truthy (getProp deItem ''SKU'') \<longrightarrow>
        orElse (getProp deItem ''SKU'') (getProp productItem ''SKU'') = getProp deItem ''SKU'')
   \<and> (\<not> truthy (getProp deItem ''SKU'') \<longrightarrow>
        orElse (getProp deItem ''SKU'') (getProp productItem ''SKU'') = getProp productItem ''SKU'')
   \<and> (\<not> truthy (getProp productItem ''Name'') \<or> \<not> truthy (getProp productItem ''Brand'') \<longrightarrow>
        processTitle productItem sku = orEmpty (getProp productItem ''Name''))
   \<and> (getProp productItem ''Name'' = Some name \<and> name \<noteq> [] \<and>
      getProp productItem ''Brand'' = Some brand \<and> brand \<noteq> [] \<longrightarrow>
        processTitle productItem sku = stripIdentifier sku (stripBrand brand name))
   \<and> stripBrand brand (brand @ rest) = trim rest
   \<and> (\<not> startsWith name brand \<longrightarrow> stripBrand brand name = name)
   \<and> (\<not> truthy sku \<or> \<not> (\<exists>i. occursAt title (orEmpty sku) i) \<longrightarrow> stripIdentifier sku title = title)
   \<and> (s \<noteq> [] \<and> occursAt title s i \<and> (\<forall>j<i. \<not> occursAt title s j) \<longrightarrow>
        stripIdentifier (Some s) title = trim (take i title @ drop (i + length s) title))"
proof -
  have a: "stripBrand brand (brand @ rest) = trim rest"
    by (simp add: stripBrand_def startsWith_def)
  have b: "\<not> startsWith name brand \<longrightarrow> stripBrand brand name = name"
    by (simp add: stripBrand_def)
  have c: "\<not> truthy sku \<or> \<not> (\<exists>i. occursAt title (orEmpty sku) i) \<longrightarrow> stripIdentifier sku title = title"
    by (auto simp: stripIdentifier_def includesStr_iff)
  have d: "truthy (getProp deItem ''SKU'') \<longrightarrow>
        orElse (getProp deItem ''SKU'') (getProp productItem ''SKU'') = getProp deItem ''SKU''"
    by (simp add: orElse_def)
  have e: "\<not> truthy (getProp deItem ''SKU'') \<longrightarrow>
        orElse (getProp deItem ''SKU'') (getProp productItem ''SKU'') = getProp productItem ''SKU''"
    by (simp add: orElse_def)
  show ?thesis
    using a b c d e title_of_mergedProduct [of k deItem productItem]
      processTitle_falsy [of productItem sku] processTitle_strips [of productItem name brand sku]
      stripIdentifier_first [of s title i]
    by blast
qed

theorem merged_title_witness:
  "uprop (mergedProduct ''X1'' titlePrimary titleSecondary) ''Title''
     = Some (stripIdentifier (Some ''B34X1V1'') (stripBrand ''Acme'' ''Acme X1 Widget''))
   \<and> stripBrand ''Acme'' ''Acme X1 Widget'' = ''X1 Widget''
   \<and> stripIdentifier (Some ''B34X1V1'') ''X1 Widget'' = ''X1 Widget''
   \<and> stripIdentifier (Some ''X1'') ''X1 Widget'' = ''Widget''
   \<and> \<not> includesStr ''X1 Widget'' ''Acme''"
proof -
  have h1: "truthy (getProp titlePrimary ''SKU'')" by code_simp
  have h2: "getProp titlePrimary ''SKU'' = Some ''B34X1V1''" by code_simp
  have h3: "getProp titleSecondary ''Name'' = Some ''Acme X1 Widget''" by code_simp
  have h4: "getProp titleSecondary ''Brand'' = Some ''Acme''" by code_simp
  have h5: "truthy (Some ''B34X1V1'')" by code_simp
  have h6: "\<not> includesStr ''X1 Widget'' ''B34X1V1''" by code_simp
  have h7: "occursAt ''X1 Widget'' ''X1'' 0" by code_simp
  have h8: "trim '' X1 Widget'' = ''X1 Widget''" by code_simp
  have h9: "trim (take 0 ''X1 Widget'' @ drop (0 + length ''X1'') ''X1 Widget'') = ''Widget''" by code_simp
  have h10: "\<not> includesStr ''X1 Widget'' ''Acme''" by code_simp
  from h6 have h6': "\<not> (\<exists>i. occursAt ''X1 Widget'' (orEmpty (Some ''B34X1V1'')) i)"
    by (simp add: includesStr_iff orEmpty_def)
  note inst = merged_title [where k = "''X1''" and deItem = titlePrimary and productItem = titleSecondary
      and sku = "Some ''B34X1V1''" and name = "''Acme X1 Widget''" and brand = "''Acme''"
      and rest = "'' X1 Widget''" and title = "''X1 Widget''" and s = "''X1''" and i = 0]
  from inst h1 h2 h3 h4 h5 h6' h7 h8 h9 h10 show ?thesis
    by simp
qed

section \<open>Extraction batcher\<close>

text \<open>
  What a handler reports is modelled as the list of its \<open>console.error\<close> and
  \<open>console.warn\<close> calls and of its notifications (\<open>showNotification\<close>); the
  \<open>console.log\<close> debugging lines are left out. A handler returns the list of its reports
  together with its result.
\<close>

datatype report = ConsoleError string | ConsoleWarn string | Notification string

definition digitChar :: "nat \<Rightarrow> char" where
  "digitChar d = ''0123456789'' ! (d mod 10)"

fun showNat :: "nat \<Rightarrow> string" where
  \<comment> \<open>the decimal text of a non-negative integer, as a template literal prints it\<close>
  "showNat n = (if n < 10 then [digitChar n] else showNat (n div 10) @ [digitChar n])"

declare showNat.simps [simp del]

definition slice :: "'a list \<Rightarrow> nat \<Rightarrow> nat \<Rightarrow> 'a list" where
  \<comment> \<open>\<open>xs.slice(start, end)\<close> for non-negative bounds\<close>
  "slice xs start end = take (end - start) (drop start xs)"

definition columnsToExtract :: "string list" where
  "columnsToExtract = [''Subcategory'', ''Category'', ''Title'', ''description'']"

definition ROWS_PER_FILE :: nat where
  "ROWS_PER_FILE = 600"

record export_row =
  row_index :: nat
  SKU :: string
  cell :: string

record batch =
  fileName :: string
  header :: "string list"
  rows :: "export_row list"

definition exportRow :: "string \<Rightarrow> nat \<Rightarrow> unified \<Rightarrow> export_row" where
  \<comment> \<open>\<open>{ row_index: index, SKU: row.SKU || '', [column]: row[column] || '' }\<close>\<close>
  "exportRow column index row =
     \<lparr>row_index = index, SKU = orEmpty (uprop row ''SKU''), cell = orEmpty (uprop row column)\<rparr>"

definition chunkBatch :: "unified list \<Rightarrow> string \<Rightarrow> nat \<Rightarrow> nat \<Rightarrow> batch" where
  \<comment> \<open>one turn of the loop over \<open>chunkIndex\<close>\<close>
  "chunkBatch data column totalChunks chunkIndex =
     (let start = chunkIndex * ROWS_PER_FILE;
          end = min (start + ROWS_PER_FILE) (length data);
          chunk = slice data start end
      in \<lparr>fileName = toLowerCase column @ ''_'' @ showNat (chunkIndex + 1) @ ''_of_''
                      @ showNat totalChunks @ ''.xlsx'',
          header = [''row_index'', ''SKU'', column],
          rows = map (\<lambda>(localIndex, row). exportRow column (start + localIndex) row)
                   (enumerate 0 chunk)\<rparr>)"

definition columnBatches :: "unified list \<Rightarrow> string \<Rightarrow> batch list" where
  \<comment> \<open>the files one turn of the loop over \<open>columnsToExtract\<close> adds to the archive\<close>
  "columnBatches data column =
     (if column = ''description'' then
        let totalChunks = (length data + (ROWS_PER_FILE - 1)) div ROWS_PER_FILE
        in map (chunkBatch data column totalChunks) [0..<totalChunks]
      else
        [\<lparr>fileName = toLowerCase column @ ''.xlsx'',
          header = [''row_index'', ''SKU'', column],
          rows = map (\<lambda>(index, row). exportRow column index row) (enumerate 0 data)\<rparr>])"

definition extractColumns :: "unified list \<Rightarrow> report list \<times> batch list option" where
  \<comment> \<open>the reports of \<open>extractColumns\<close> and the files of the archive it downloads, if any\<close>
  "extractColumns data =
     (case data of
        [] \<Rightarrow> ([], None)
      | first # _ \<Rightarrow>
          let availableColumns = map fst first;
              missingColumns = filter (\<lambda>col. col \<notin> set availableColumns) columnsToExtract
          in if length missingColumns > 0 then ([], None)
             else ([], Some (concat (map (columnBatches data) columnsToExtract))))"

record app_state =
  isExtracting :: bool

definition extractColumns_state :: "unified list \<Rightarrow> 'a app_state_scheme \<Rightarrow> 'a app_state_scheme" where
  \<comment> \<open>the component state \<open>extractColumns\<close> leaves behind: with no data it returns at once;
     otherwise \<open>setIsExtracting(true)\<close> runs before the column check and
     \<open>setIsExtracting(false)\<close> runs in the \<open>finally\<close> clause of every path. No other state
     setter is called.\<close>
  "extractColumns_state data st =
     (case data of
        [] \<Rightarrow> st
      | first # _ \<Rightarrow> (st\<lparr>isExtracting := True\<rparr>)\<lparr>isExtracting := False\<rparr>)"


subsection \<open>Chunks of the large-text column\<close>

lemma enumerate_shift:
  "map (\<lambda>(l, row). g (s + l) row) (enumerate m ys) = map (\<lambda>(i, row). g i row) (enumerate (s + m) ys)"
  by (induction ys arbitrary: m) auto

lemma drop_enumerate: "drop s (enumerate n xs) = enumerate (n + s) (drop s xs)"
proof (induction xs arbitrary: s n)
  case Nil
  then show ?case by simp
next
  case (Cons x xs)
  then show ?case by (cases s) auto
qed

lemma take_enumerate: "take k (enumerate n xs) = enumerate n (take k xs)"
proof (induction xs arbitrary: k n)
  case Nil
  then show ?case by simp
next
  case (Cons x xs)
  then show ?case by (cases k) auto
qed

lemma slice_chunk:
  "slice xs s (min (s + k) (length xs)) = take k (drop s xs)"
  by (simp add: slice_def min_def)

lemma rows_chunkBatch:
  "rows (chunkBatch data column totalChunks chunkIndex)
   = map (\<lambda>(i, row). exportRow column i row)
       (take ROWS_PER_FILE (drop (chunkIndex * ROWS_PER_FILE) (enumerate 0 data)))"
  by (simp add: chunkBatch_def Let_def slice_chunk enumerate_shift [where m = 0, simplified]
      drop_enumerate take_enumerate)

lemma concat_chunks:
  "concat (map (\<lambda>i. take k (drop (i * k) xs)) [0..<m]) = take (m * k) xs"
proof (induction m)
  case 0
  then show ?case by simp
next
  case (Suc m)
  have "take (m * k) xs @ take k (drop (m * k) xs) = take (m * k + k) xs"
    by (simp add: take_add)
  with Suc show ?case by (simp add: add.commute)
qed

definition totalChunksOf :: "unified list \<Rightarrow> nat" where
  \<comment> \<open>\<open>Math.ceil(data.length / ROWS_PER_FILE)\<close>\<close>
  "totalChunksOf data = (length data + (ROWS_PER_FILE - 1)) div ROWS_PER_FILE"

lemma ceil_cover:
  fixes n k :: nat
  assumes "0 < k"
  shows "n \<le> (n + (k - 1)) div k * k"
proof -
  have "(n + (k - 1)) div k * k + (n + (k - 1)) mod k = n + (k - 1)"
    by (rule div_mult_mod_eq)
  moreover have "(n + (k - 1)) mod k < k"
    using assms by simp
  ultimately show ?thesis by linarith
qed


lemma totalChunks_cover: "length data \<le> totalChunksOf data * ROWS_PER_FILE"
  unfolding totalChunksOf_def by (rule ceil_cover) (simp add: ROWS_PER_FILE_def)

lemma description_rows:
  "map rows (columnBatches data ''description'')
   = map (\<lambda>chunkIndex. map (\<lambda>(i, row). exportRow ''description'' i row)
            (take ROWS_PER_FILE (drop (chunkIndex * ROWS_PER_FILE) (enumerate 0 data))))
       [0..<totalChunksOf data]"
  by (simp add: columnBatches_def Let_def rows_chunkBatch comp_def totalChunksOf_def)

lemma description_concat:
  "concat (map rows (columnBatches data ''description''))
   = map (\<lambda>(i, row). exportRow ''description'' i row) (enumerate 0 data)"
proof -
  have "concat (map rows (columnBatches data ''description''))
        = map (\<lambda>(i, row). exportRow ''description'' i row)
            (concat (map (\<lambda>c. take ROWS_PER_FILE (drop (c * ROWS_PER_FILE) (enumerate 0 data)))
               [0..<totalChunksOf data]))"
    by (simp only: description_rows map_concat map_map comp_def)
  also have "\<dots> = map (\<lambda>(i, row). exportRow ''description'' i row)
            (take (totalChunksOf data * ROWS_PER_FILE) (enumerate 0 data))"
    by (simp only: concat_chunks)
  also have "\<dots> = map (\<lambda>(i, row). exportRow ''description'' i row) (enumerate 0 data)"
    using totalChunks_cover [of data] by simp
  finally show ?thesis .
qed




lemma other_column_batch:
  "column \<noteq> ''description'' \<Longrightarrow>
   map rows (columnBatches data column) = [map (\<lambda>(i, row). exportRow column i row) (enumerate 0 data)]
   \<and> map header (columnBatches data column) = [[''row_index'', ''SKU'', column]]"
  by (simp add: columnBatches_def)

lemma extractColumns_ok:
  "set columnsToExtract \<subseteq> fst ` set first \<Longrightarrow>
   extractColumns (first # rest)
   = ([], Some (concat (map (columnBatches (first # rest)) columnsToExtract)))"
  by (auto simp: extractColumns_def Let_def filter_empty_conv)



definition exampleRow :: unified where
  "exampleRow = mergedProduct ''X1'' titlePrimary titleSecondary"

lemma exampleRow_columns: "set columnsToExtract \<subseteq> fst ` set exampleRow"
  by code_simp


subsection \<open>Missing columns\<close>

definition primaryOnlyRow :: unified where
  "primaryOnlyRow = deSoloProduct ''A'' [(''SKU'', ''A''), (''Title'', ''Lamp'')]"

text \<open>
  C6 as stated fails in one word, "reports": for a unified set whose first record lacks a
  requested column the handler leaves through a bare \<open>return\<close>, so the list of reports
  is empty. The rest of the claim holds there: no batch is produced.
\<close>

theorem missing_columns_counterexample:
  "\<not> set columnsToExtract \<subseteq> fst ` set primaryOnlyRow
   \<and> ''Subcategory'' \<notin> fst ` set primaryOnlyRow
   \<and> fst (extractColumns [primaryOnlyRow]) = []
   \<and> snd (extractColumns [primaryOnlyRow]) = None"
proof -
  have "''Subcategory'' \<notin> fst ` set primaryOnlyRow" by code_simp
  moreover have "\<not> set columnsToExtract \<subseteq> fst ` set primaryOnlyRow" by code_simp
  moreover have "extractColumns [primaryOnlyRow] = ([], None)" by code_simp
  ultimately show ?thesis by simp
qed

lemma extractColumns_missing:
  "\<not> set columnsToExtract \<subseteq> fst ` set first \<Longrightarrow> extractColumns (first # rest) = ([], None)"
  by (auto simp: extractColumns_def Let_def filter_empty_conv)

lemma columnBatches_nonempty: "data \<noteq> [] \<Longrightarrow> columnBatches data column \<noteq> []"
proof (cases "column = ''description''")
  case True
  assume "data \<noteq> []"
  then have "ROWS_PER_FILE \<le> length data + (ROWS_PER_FILE - 1)"
    by (cases data) (simp_all add: ROWS_PER_FILE_def)
  then have "0 < (length data + (ROWS_PER_FILE - 1)) div ROWS_PER_FILE"
    by (simp add: div_greater_zero_iff ROWS_PER_FILE_def)
  with True show ?thesis by (simp add: columnBatches_def Let_def)
next
  case False
  then show ?thesis by (simp add: columnBatches_def)
qed

text \<open>
  C6, as the code has it: if any requested column is absent from the first unified
  record's field set, extraction returns without producing any batch (no partial
  extraction) and leaves the state as it was before the call: the in-progress flag, raised
  before the check, is lowered again on return, and the call is available only while the
  flag is down. It reports nothing (no notification, no console message, no error). An
  empty unified set does the same. Otherwise extraction produces, without a report, the
  batches of all four requested columns, at least one batch for each.
\<close>

theorem missing_columns:
  "(\<not> set columnsToExtract \<subseteq> fst ` set first \<longrightarrow> extractColumns (first # rest) = ([], None))
   \<and> extractColumns [] = ([], None)
   \<and> extractColumns_state (first # rest) st = st\<lparr>isExtracting := False\<rparr>
   \<and> extractColumns_state [] st = st
   \<and> (\<not> isExtracting st \<longrightarrow> extractColumns_state data st = st)
   \<and> (set columnsToExtract \<subseteq> fst ` set first \<longrightarrow>
        extractColumns (first # rest)
        = ([], Some (columnBatches (first # rest) ''Subcategory'' @ columnBatches (first # rest) ''Category''
                     @ columnBatches (first # rest) ''Title'' @ columnBatches (first # rest) ''description''))
        \<and> columnBatches (first # rest) ''Subcategory'' \<noteq> []
        \<and> columnBatches (first # rest) ''Category'' \<noteq> []
        \<and> columnBatches (first # rest) ''Title'' \<noteq> []
        \<and> columnBatches (first # rest) ''description'' \<noteq> [])"
proof -
  have "extractColumns [] = ([], None)"
    by (simp add: extractColumns_def)
  moreover have "concat (map (columnBatches (first # rest)) columnsToExtract)
      = columnBatches (first # rest) ''Subcategory'' @ columnBatches (first # rest) ''Category''
        @ columnBatches (first # rest) ''Title'' @ columnBatches (first # rest) ''description''"
    by (simp add: columnsToExtract_def)
  moreover have "extractColumns_state (first # rest) st = st\<lparr>isExtracting := False\<rparr>"
    by (simp add: extractColumns_state_def)
  moreover have "extractColumns_state [] st = st"
    by (simp add: extractColumns_state_def)
  moreover have "\<not> isExtracting st \<longrightarrow> extractColumns_state data st = st"
    by (cases data) (simp_all add: extractColumns_state_def)
  ultimately show ?thesis
    using extractColumns_missing [of first rest] extractColumns_ok [of first rest]
      columnBatches_nonempty [of "first # rest"]
    by simp
qed

theorem missing_columns_witness:
  "extractColumns [primaryOnlyRow] = ([], None)
   \<and> extractColumns_state [primaryOnlyRow] \<lparr>isExtracting = False\<rparr> = \<lparr>isExtracting = False\<rparr>
   \<and> extractColumns [exampleRow]
     = ([], Some (columnBatches [exampleRow] ''Subcategory'' @ columnBatches [exampleRow] ''Category''
                  @ columnBatches [exampleRow] ''Title'' @ columnBatches [exampleRow] ''description''))
   \<and> columnBatches [exampleRow] ''description'' \<noteq> []"
proof -
  have n: "\<not> set columnsToExtract \<subseteq> fst ` set primaryOnlyRow" by code_simp
  from missing_columns [of primaryOnlyRow "[]" "\<lparr>isExtracting = False\<rparr>" "[primaryOnlyRow]"] n
  have 1: "extractColumns [primaryOnlyRow] = ([], None)"
    and s: "extractColumns_state [primaryOnlyRow] \<lparr>isExtracting = False\<rparr> = \<lparr>isExtracting = False\<rparr>"
    by simp_all
  from missing_columns [of exampleRow "[]" "\<lparr>isExtracting = False\<rparr>" "[exampleRow]"]
    exampleRow_columns
  have 2: "extractColumns [exampleRow]
     = ([], Some (columnBatches [exampleRow] ''Subcategory'' @ columnBatches [exampleRow] ''Category''
                  @ columnBatches [exampleRow] ''Title'' @ columnBatches [exampleRow] ''description''))"
    and 3: "columnBatches [exampleRow] ''description'' \<noteq> []"
    by blast+
  from 1 s 2 3 show ?thesis by blast
qed


section \<open>Translation importer\<close>

text \<open>
  A translated file is modelled by its name and the rows \<open>parseExcelFile\<close> resolves to
  (every cell a string, the properties of a row in header order); a file whose parse is
  rejected is not modelled. The handler is called with one of the four extracted columns.
  A standardized row \<open>{row_index, SKU, [columnName]: value}\<close> is a record of three strings.
\<close>

definition columnTranslations :: "(string \<times> string list) list" where
  "columnTranslations =
     [(''Subcategory'', [''subkategorija'', ''underkategori'', ''underkategori'', ''alaluokka'', ''underkategori'']),
      (''Category'', [''kategorija'', ''kategori'', ''kategori'', ''luokka'', ''kategori'']),
      (''Title'', [''pavadinimas'', ''titel'', ''titel'', ''otsikko'', ''tittel'']),
      (''description'', [''apra'' @ [CHR 0xC5, CHR 0xA1] @ ''ymas'', ''Beskrivning'', ''beskrivelse'', ''kuvaus'', ''beskrivelse''])]"

record translated_row =
  tr_row_index :: string
  tr_SKU :: string
  tr_value :: string

definition nth_opt :: "'a list \<Rightarrow> nat \<Rightarrow> 'a option" where
  \<comment> \<open>\<open>keys[i]\<close>, \<open>None\<close> for \<open>undefined\<close>\<close>
  "nth_opt xs i = (if i < length xs then Some (xs ! i) else None)"

definition rowAt :: "csv_record \<Rightarrow> string option \<Rightarrow> string option" where
  \<comment> \<open>\<open>row[key]\<close> for a key that may be \<open>undefined\<close>: that reads the property named \<open>undefined\<close>\<close>
  "rowAt row key = (case key of Some k \<Rightarrow> getProp row k | None \<Rightarrow> getProp row ''undefined'')"

definition rowIndexKeyOf :: "string list \<Rightarrow> string option" where
  "rowIndexKeyOf keys = orElse (find (\<lambda>k. toLowerCase k = ''row_index'') keys) (nth_opt keys 0)"

definition skuKeyOf :: "string list \<Rightarrow> string option" where
  "skuKeyOf keys = orElse (find (\<lambda>k. toLowerCase k = ''sku'') keys) (nth_opt keys 1)"

definition possibleTranslationsOf :: "string \<Rightarrow> string list" where
  \<comment> \<open>\<open>columnTranslations[columnName] || []\<close>\<close>
  "possibleTranslationsOf columnName =
     (case map_of columnTranslations columnName of Some variants \<Rightarrow> variants | None \<Rightarrow> [])"

definition dataKeyOf :: "string \<Rightarrow> string list \<Rightarrow> string option" where
  "dataKeyOf columnName keys =
     orElse
       (find (\<lambda>k. toLowerCase k \<in> set (possibleTranslationsOf columnName)
                   \<or> toLowerCase k = toLowerCase columnName) keys)
       (nth_opt keys 2)"

definition standardizeRow :: "string \<Rightarrow> csv_record \<Rightarrow> translated_row option" where
  \<comment> \<open>the callback of \<open>fileData.map\<close>; \<open>None\<close> is the \<open>null\<close> of a skipped row\<close>
  "standardizeRow columnName row =
     (let keys = map fst row;
          rowIndex = rowAt row (rowIndexKeyOf keys);
          sku = rowAt row (skuKeyOf keys);
          value = rowAt row (dataKeyOf columnName keys)
      in case value of
           None \<Rightarrow> None
         | Some v \<Rightarrow>
             Some \<lparr>tr_row_index = (case rowIndex of None \<Rightarrow> ''0'' | Some r \<Rightarrow> r),
                   tr_SKU = (case sku of None \<Rightarrow> [] | Some s \<Rightarrow> s),
                   tr_value = v\<rparr>)"

definition isDigit :: "char \<Rightarrow> bool" where
  "isDigit c = (c \<in> set ''0123456789'')"

definition digitValue :: "char \<Rightarrow> nat" where
  "digitValue c = (case map_of (zip ''0123456789'' [0..<10]) c of Some d \<Rightarrow> d | None \<Rightarrow> 0)"

fun bitLength :: "nat \<Rightarrow> nat" where
  \<comment> \<open>the number of binary digits\<close>
  "bitLength n = (if n = 0 then 0 else Suc (bitLength (n div 2)))"

declare bitLength.simps [simp del]

definition roundToDouble :: "nat \<Rightarrow> nat option" where
  \<comment> \<open>the Number value of a non-negative integer: the nearest double (53 binary digits,
     ties to even), \<open>None\<close> for \<open>Infinity\<close>\<close>
  "roundToDouble n =
     (let e = bitLength n - 53;
          q = n div 2 ^ e;
          r = n mod 2 ^ e;
          q = (if 2 * r > 2 ^ e \<or> (2 * r = 2 ^ e \<and> odd q) then q + 1 else q)
      in if q * 2 ^ e \<ge> 2 ^ 1024 then None else Some (q * 2 ^ e))"

datatype jsnumber = NaN | NegInfinity | Finite int | PosInfinity

definition parseInt :: "string \<Rightarrow> jsnumber" where
  \<comment> \<open>\<open>parseInt(s, 10)\<close>: leading white space, a sign, then the longest run of digits, as
     the Number nearest to their value (an engine may round a run of more than 20
     significant digits from its first 20 only)\<close>
  "parseInt s =
     (let t = trimStart s;
          negative = (t \<noteq> [] \<and> hd t = CHR ''-'');
          t = (if t \<noteq> [] \<and> (hd t = CHR ''-'' \<or> hd t = CHR ''+'') then tl t else t);
          digits = takeWhile isDigit t
      in if digits = [] then NaN
         else case roundToDouble (foldl (\<lambda>acc c. acc * 10 + digitValue c) 0 digits) of
                None \<Rightarrow> (if negative then NegInfinity else PosInfinity)
              | Some n \<Rightarrow> Finite (if negative then - int n else int n))"

definition sortKey :: "translated_row \<Rightarrow> nat \<times> int" where
  \<comment> \<open>the place of the value the comparator subtracts: \<open>-Infinity\<close>, then the numbers in
     order, then \<open>Infinity\<close>, which also stands for \<open>NaN\<close>; the comparator is zero on
     equal places\<close>
  "sortKey row =
     (case parseInt (tr_row_index row) of
        NegInfinity \<Rightarrow> (0, 0)
      | Finite n \<Rightarrow> (1, n)
      | PosInfinity \<Rightarrow> (2, 0)
      | NaN \<Rightarrow> (2, 0))"

record import_result =
  importedRows :: "translated_row list"
  skippedCount :: nat
  uniqueRows :: "translated_row list"

datatype import_outcome = EarlyReturn | Raised string | Imported import_result

definition skipWarning :: "string \<Rightarrow> report" where
  "skipWarning name = ConsoleWarn (''Skipping row due to missing translated value in '' @ name @ '':'')"

definition processFile ::
  "string \<Rightarrow> report list \<times> translated_row list \<times> nat \<Rightarrow> string \<times> csv_record list
   \<Rightarrow> report list \<times> translated_row list \<times> nat" where
  \<comment> \<open>one turn of the loop over the selected files\<close>
  "processFile columnName acc file =
     (case (acc, file) of ((reports, allRows, skippedRows), (name, fileData)) \<Rightarrow>
        let mapped = map (standardizeRow columnName) fileData;
            skipped = filter (\<lambda>r. r = None) mapped;
            standardizedData = List.map_filter id mapped
        in (reports @ map (\<lambda>_. skipWarning name) skipped,
            allRows @ standardizedData,
            skippedRows + length skipped))"

definition rowsBySku :: "translated_row list \<Rightarrow> (string \<times> translated_row) list" where
  \<comment> \<open>\<open>allRows.forEach(row => { if (row.SKU) rowsBySku.set(row.SKU, row) })\<close>\<close>
  "rowsBySku rs = foldl (\<lambda>m row. if tr_SKU row \<noteq> [] then AList.update (tr_SKU row) row m else m) [] rs"

definition handleTranslatedFileChange ::
  "string \<Rightarrow> (string \<times> csv_record list) list \<Rightarrow> report list \<times> import_outcome" where
  "handleTranslatedFileChange columnName files =
     (if files = [] then ([], EarlyReturn)
      else
        case foldl (processFile columnName) ([], [], 0) files of
          (reports, allRows, skippedRows) \<Rightarrow>
            let allRows = (if length files > 1 then sort_key sortKey allRows else allRows)
            in if allRows = [] then
                 (reports @ [ConsoleError (''Error processing translated '' @ columnName @ '' files:'')],
                  Raised ''No valid rows were processed. Please check the file format and column headers.'')
               else
                 (reports,
                  Imported \<lparr>importedRows = allRows, skippedCount = skippedRows,
                            uniqueRows = map snd (rowsBySku allRows)\<rparr>))"


subsection \<open>Resolving the value column\<close>

text \<open>
  C7: the variant list of \<open>description\<close> holds \<open>Beskrivning\<close> with a capital letter,
  while the handler compares it with the lower-cased header. A row whose fourth header is
  \<open>Beskrivning\<close> is therefore not resolved by name: the value column falls back to the
  third field. A listed variant in lower case, such as \<open>kuvaus\<close>, resolves by name in any
  casing and at any position.
\<close>

theorem beskrivning_header_not_resolved:
  "''Beskrivning'' \<in> set (possibleTranslationsOf ''description'')
   \<and> dataKeyOf ''description'' [''row_index'', ''SKU'', ''note'', ''Beskrivning''] = Some ''note''
   \<and> standardizeRow ''description''
         [(''row_index'', ''3''), (''SKU'', ''A''), (''note'', ''n''), (''Beskrivning'', ''text'')]
       = Some \<lparr>tr_row_index = ''3'', tr_SKU = ''A'', tr_value = ''n''\<rparr>
   \<and> dataKeyOf ''description'' [''row_index'', ''SKU'', ''note'', ''KUVAUS''] = Some ''KUVAUS''"
proof -
  have "''Beskrivning'' \<in> set (possibleTranslationsOf ''description'')"
    by code_simp
  moreover have "dataKeyOf ''description'' [''row_index'', ''SKU'', ''note'', ''Beskrivning''] = Some ''note''"
    by code_simp
  moreover have "standardizeRow ''description''
         [(''row_index'', ''3''), (''SKU'', ''A''), (''note'', ''n''), (''Beskrivning'', ''text'')]
       = Some \<lparr>tr_row_index = ''3'', tr_SKU = ''A'', tr_value = ''n''\<rparr>"
    by code_simp
  moreover have "dataKeyOf ''description'' [''row_index'', ''SKU'', ''note'', ''KUVAUS''] = Some ''KUVAUS''"
    by code_simp
  ultimately show ?thesis by blast
qed

subsection \<open>Dropped rows and the empty result\<close>

definition keptOf :: "string \<Rightarrow> csv_record list \<Rightarrow> translated_row list" where
  \<comment> \<open>the standardized rows of the rows that are not dropped\<close>
  "keptOf columnName fileData = List.map_filter (standardizeRow columnName) fileData"

definition droppedOf :: "string \<Rightarrow> csv_record list \<Rightarrow> csv_record list" where
  \<comment> \<open>the rows that are dropped\<close>
  "droppedOf columnName fileData = filter (\<lambda>row. standardizeRow columnName row = None) fileData"

definition warningsOf :: "string \<Rightarrow> string \<times> csv_record list \<Rightarrow> report list" where
  "warningsOf columnName sel = map (\<lambda>_. skipWarning (fst sel)) (droppedOf columnName (snd sel))"

definition emptyResultMessage :: string where
  "emptyResultMessage = ''No valid rows were processed. Please check the file format and column headers.''"

lemma map_filter_id_map: "List.map_filter id (map f xs) = List.map_filter f xs"
  by (induction xs) (simp_all add: map_filter_simps split: option.splits)

lemma warnings_count:
  "map (\<lambda>_. w) (filter (\<lambda>r. r = None) (map f xs)) = map (\<lambda>_. w) (filter (\<lambda>x. f x = None) xs)"
  by (induction xs) simp_all

lemma skipped_count:
  "length (filter (\<lambda>r. r = None) (map f xs)) = length (filter (\<lambda>x. f x = None) xs)"
  by (induction xs) simp_all

lemma processFile_step:
  "processFile columnName (reports, rs, n) sel
   = (reports @ warningsOf columnName sel, rs @ keptOf columnName (snd sel),
      n + length (droppedOf columnName (snd sel)))"
  by (cases sel)
    (simp add: processFile_def Let_def warningsOf_def keptOf_def droppedOf_def map_filter_id_map
      warnings_count comp_def)

lemma foldl_processFile:
  "foldl (processFile columnName) (reports, rs, n) files
   = (reports @ concat (map (warningsOf columnName) files),
      rs @ concat (map (\<lambda>sel. keptOf columnName (snd sel)) files),
      n + length (droppedOf columnName (concat (map snd files))))"
proof (induction files arbitrary: reports rs n)
  case Nil
  then show ?case by (simp add: droppedOf_def)
next
  case (Cons sel files)
  show ?case
    by (simp add: processFile_step Cons.IH droppedOf_def)
qed

lemma sort_key_Nil_iff: "sort_key f xs = [] \<longleftrightarrow> xs = []"
  by (metis length_0_conv length_sort)

lemma standardizeRow_None:
  "standardizeRow columnName row = None \<longleftrightarrow> rowAt row (dataKeyOf columnName (map fst row)) = None"
  by (simp add: standardizeRow_def Let_def split: option.splits)

lemma standardizeRow_Some:
  "rowAt row (dataKeyOf columnName (map fst row)) = Some v \<Longrightarrow>
   standardizeRow columnName row
   = Some \<lparr>tr_row_index = (case rowAt row (rowIndexKeyOf (map fst row)) of None \<Rightarrow> ''0'' | Some r \<Rightarrow> r),
           tr_SKU = (case rowAt row (skuKeyOf (map fst row)) of None \<Rightarrow> [] | Some s \<Rightarrow> s),
           tr_value = v\<rparr>"
  by (simp add: standardizeRow_def Let_def)

lemma handle_unfold:
  assumes "files \<noteq> []"
  shows "handleTranslatedFileChange columnName files
   = (let kept = concat (map (\<lambda>sel. keptOf columnName (snd sel)) files);
          warnings = concat (map (warningsOf columnName) files);
          sorted = (if length files > 1 then sort_key sortKey kept else kept)
      in if kept = [] then
           (warnings @ [ConsoleError (''Error processing translated '' @ columnName @ '' files:'')],
            Raised emptyResultMessage)
         else
           (warnings,
            Imported \<lparr>importedRows = sorted,
                      skippedCount = length (droppedOf columnName (concat (map snd files))),
                      uniqueRows = map snd (rowsBySku sorted)\<rparr>))"
  using assms
  by (simp add: handleTranslatedFileChange_def foldl_processFile Let_def sort_key_Nil_iff
      emptyResultMessage_def)

text \<open>
  C8 as stated fails on the empty selection: the import is to raise the empty-result
  failure whenever zero rows survive across all supplied files, and with no file supplied
  zero rows survive, yet the handler returns at its first line, before the \<open>try\<close> block,
  and raises nothing.
\<close>

theorem import_empty_selection_counterexample:
  "concat (map (\<lambda>sel. keptOf ''Title'' (snd sel)) []) = []
   \<and> handleTranslatedFileChange ''Title'' [] = ([], EarlyReturn)
   \<and> snd (handleTranslatedFileChange ''Title'' []) \<noteq> Raised emptyResultMessage"
  by (simp add: handleTranslatedFileChange_def)

text \<open>
  C8, as the code has it: a row is dropped exactly when its resolved value is undefined; a
  row whose value is defined is kept, with a missing row index defaulted to \<open>0\<close> and a
  missing identifier defaulted to the empty string. Dropped rows are counted (and warned
  about, one warning for each), they raise nothing. The import raises the empty-result
  failure if and only if at least one file is supplied and no row of any file is kept.
  When some row is kept it succeeds with the kept rows (sorted by row index when there are
  several files) and the count of the dropped rows. With no file supplied the handler
  returns at once, without importing or raising anything.
\<close>

theorem import_drops_and_empty_result:
  "(standardizeRow columnName row = None
      \<longleftrightarrow> rowAt row (dataKeyOf columnName (map fst row)) = None)
   \<and> (rowAt row (dataKeyOf columnName (map fst row)) = Some v \<longrightarrow>
        standardizeRow columnName row
        = Some \<lparr>tr_row_index = (case rowAt row (rowIndexKeyOf (map fst row)) of None \<Rightarrow> ''0'' | Some r \<Rightarrow> r),
                tr_SKU = (case rowAt row (skuKeyOf (map fst row)) of None \<Rightarrow> [] | Some s \<Rightarrow> s),
                tr_value = v\<rparr>)
   \<and> (snd (handleTranslatedFileChange columnName files) = Raised emptyResultMessage
        \<longleftrightarrow> files \<noteq> [] \<and> concat (map (\<lambda>sel. keptOf columnName (snd sel)) files) = [])
   \<and> (concat (map (\<lambda>sel. keptOf columnName (snd sel)) files) \<noteq> [] \<longrightarrow>
        handleTranslatedFileChange columnName files
        = (concat (map (warningsOf columnName) files),
           Imported
             \<lparr>importedRows =
                (if length files > 1
                 then sort_key sortKey (concat (map (\<lambda>sel. keptOf columnName (snd sel)) files))
                 else concat (map (\<lambda>sel. keptOf columnName (snd sel)) files)),
              skippedCount = length (droppedOf columnName (concat (map snd files))),
              uniqueRows =
                map snd (rowsBySku
                  (if length files > 1
                   then sort_key sortKey (concat (map (\<lambda>sel. keptOf columnName (snd sel)) files))
                   else concat (map (\<lambda>sel. keptOf columnName (snd sel)) files)))\<rparr>))
   \<and> length (concat (map (warningsOf columnName) files))
       = length (droppedOf columnName (concat (map snd files)))
   \<and> handleTranslatedFileChange columnName [] = ([], EarlyReturn)"
proof -
  have e: "handleTranslatedFileChange columnName [] = ([], EarlyReturn)"
    by (simp add: handleTranslatedFileChange_def)
  have w: "length (concat (map (warningsOf columnName) files))
           = length (droppedOf columnName (concat (map snd files)))"
    by (induction files) (simp_all add: warningsOf_def droppedOf_def)
  have r: "snd (handleTranslatedFileChange columnName files) = Raised emptyResultMessage
        \<longleftrightarrow> files \<noteq> [] \<and> concat (map (\<lambda>sel. keptOf columnName (snd sel)) files) = []"
  proof (cases "files = []")
    case True
    then show ?thesis by (simp add: handleTranslatedFileChange_def)
  next
    case False
    then show ?thesis by (simp add: handle_unfold Let_def)
  qed
  have h: "concat (map (\<lambda>sel. keptOf columnName (snd sel)) files) \<noteq> [] \<longrightarrow>
        handleTranslatedFileChange columnName files
        = (concat (map (warningsOf columnName) files),
           Imported
             \<lparr>importedRows =
                (if length files > 1
                 then sort_key sortKey (concat (map (\<lambda>sel. keptOf columnName (snd sel)) files))
                 else concat (map (\<lambda>sel. keptOf columnName (snd sel)) files)),
              skippedCount = length (droppedOf columnName (concat (map snd files))),
              uniqueRows =
                map snd (rowsBySku
                  (if length files > 1
                   then sort_key sortKey (concat (map (\<lambda>sel. keptOf columnName (snd sel)) files))
                   else concat (map (\<lambda>sel. keptOf columnName (snd sel)) files)))\<rparr>)"
  proof (cases "files = []")
    case True
    then show ?thesis by simp
  next
    case False
    then show ?thesis by (simp add: handle_unfold Let_def)
  qed
  show ?thesis
    using standardizeRow_None [of columnName row] standardizeRow_Some [of row columnName v] r h w e
    by blast
qed

definition importFile :: "string \<times> csv_record list" where
  "importFile = (''title.xlsx'', [[(''Title'', ''x'')], [(''a'', ''b'')]])"

definition emptyFile :: "string \<times> csv_record list" where
  "emptyFile = (''title.xlsx'', [[(''a'', ''b'')]])"

theorem import_drops_and_empty_result_witness:
  "standardizeRow ''Title'' [(''Title'', ''x'')]
     = Some \<lparr>tr_row_index = ''x'', tr_SKU = [], tr_value = ''x''\<rparr>
   \<and> handleTranslatedFileChange ''Title'' [importFile]
     = ([skipWarning ''title.xlsx''],
        Imported \<lparr>importedRows = [\<lparr>tr_row_index = ''x'', tr_SKU = [], tr_value = ''x''\<rparr>],
                  skippedCount = 1, uniqueRows = []\<rparr>)
   \<and> snd (handleTranslatedFileChange ''Title'' [emptyFile]) = Raised emptyResultMessage"
proof -
  have v: "rowAt [(''Title'', ''x'')] (dataKeyOf ''Title'' (map fst [(''Title'', ''x'')])) = Some ''x''"
    by code_simp
  have i: "rowAt [(''Title'', ''x'')] (rowIndexKeyOf (map fst [(''Title'', ''x'')])) = Some ''x''"
    by code_simp
  have k: "rowAt [(''Title'', ''x'')] (skuKeyOf (map fst [(''Title'', ''x'')])) = None"
    by code_simp
  have kept: "concat (map (\<lambda>sel. keptOf ''Title'' (snd sel)) [importFile])
              = [\<lparr>tr_row_index = ''x'', tr_SKU = [], tr_value = ''x''\<rparr>]"
    by code_simp
  have dropped: "droppedOf ''Title'' (concat (map snd [importFile])) = [[(''a'', ''b'')]]"
    by code_simp
  have warn: "concat (map (warningsOf ''Title'') [importFile]) = [skipWarning ''title.xlsx'']"
    by code_simp
  have uniq: "rowsBySku [\<lparr>tr_row_index = ''x'', tr_SKU = [], tr_value = ''x''\<rparr>] = []"
    by (simp add: rowsBySku_def)
  have none: "concat (map (\<lambda>sel. keptOf ''Title'' (snd sel)) [emptyFile]) = []"
    by code_simp
  from import_drops_and_empty_result [of "''Title''" "[(''Title'', ''x'')]" "''x''" "[importFile]"]
    v i k kept dropped warn uniq
  have 1: "standardizeRow ''Title'' [(''Title'', ''x'')]
     = Some \<lparr>tr_row_index = ''x'', tr_SKU = [], tr_value = ''x''\<rparr>"
    and 2: "handleTranslatedFileChange ''Title'' [importFile]
     = ([skipWarning ''title.xlsx''],
        Imported \<lparr>importedRows = [\<lparr>tr_row_index = ''x'', tr_SKU = [], tr_value = ''x''\<rparr>],
                  skippedCount = 1, uniqueRows = []\<rparr>)"
    by simp_all
  from import_drops_and_empty_result [of "''Title''" "[(''Title'', ''x'')]" "''x''" "[emptyFile]"] none
  have 3: "snd (handleTranslatedFileChange ''Title'' [emptyFile]) = Raised emptyResultMessage"
    by simp
  from 1 2 3 show ?thesis by blast
qed

section \<open>Translation merge\<close>

type_synonym translated_files = "(string \<times> translated_row list) list"

definition setTranslatedFiles :: "translated_files \<Rightarrow> string \<Rightarrow> translated_row list \<Rightarrow> translated_files" where
  \<comment> \<open>\<open>{ ...prev, [columnName]: rows }\<close>\<close>
  "setTranslatedFiles prev columnName rs = AList.update columnName rs prev"

definition jsonCopy :: "unified \<Rightarrow> unified" where
  \<comment> \<open>\<open>JSON.parse(JSON.stringify(row))\<close>: a property that holds \<open>undefined\<close> is left out\<close>
  "jsonCopy row = filter (\<lambda>(k, v). v \<noteq> None) row"

definition skuMapOf :: "translated_row list \<Rightarrow> (string \<times> string) list" where
  \<comment> \<open>\<open>translatedColumnData.forEach(row => { if (row.SKU && row[columnName] !== undefined)
     skuMap.set(row.SKU, row[columnName]) })\<close>; the value of a standardized row is never undefined\<close>
  "skuMapOf rs =
     foldl (\<lambda>m row. if tr_SKU row \<noteq> [] then AList.update (tr_SKU row) (tr_value row) m else m) [] rs"

definition replaceInRow :: "(string \<times> (string \<times> string) list) list \<Rightarrow> string list \<Rightarrow> unified \<Rightarrow> unified" where
  \<comment> \<open>the callback of \<open>updatedData.forEach\<close>\<close>
  "replaceInRow translationMaps columnsToReplace row =
     (if truthy (uprop row ''SKU'') then
        foldl (\<lambda>row columnName.
                 case map_of translationMaps columnName of
                   Some translationMap \<Rightarrow>
                     (case map_of translationMap (orEmpty (uprop row ''SKU'')) of
                        Some v \<Rightarrow> AList.update columnName (Some v) row
                      | None \<Rightarrow> row)
                 | None \<Rightarrow> row)
          row columnsToReplace
      else row)"

definition replaceColumnsWithTranslations :: "unified list \<Rightarrow> translated_files \<Rightarrow> unified list option" where
  \<comment> \<open>\<open>updatedData\<close>, for a loaded \<open>mergedData\<close>; \<open>None\<close> when the handler returns early\<close>
  "replaceColumnsWithTranslations mergedData translatedFiles =
     (if length (map fst translatedFiles) = 0 then None
      else
        let updatedData = map jsonCopy mergedData;
            columnsToReplace = map fst translatedFiles;
            translationMaps =
              foldl (\<lambda>m columnName.
                       AList.update columnName
                         (skuMapOf (case map_of translatedFiles columnName of Some rs \<Rightarrow> rs | None \<Rightarrow> []))
                         m)
                [] columnsToReplace
        in Some (map (replaceInRow translationMaps columnsToReplace) updatedData))"

subsection \<open>Round trip\<close>

definition exportedFile :: "string \<Rightarrow> batch \<Rightarrow> string \<times> csv_record list" where
  \<comment> \<open>Modelled from the spec: the export renderer and the tabular ingestion are external
     collaborators. An unmodified copy of an exported batch is read back as one row per
     exported row, the properties in header order and every cell as text.\<close>
  "exportedFile column b =
     (fileName b, map (\<lambda>r. zip (header b) [showNat (row_index r), SKU r, cell r]) (rows b))"

definition roundTrip :: "string \<Rightarrow> unified list \<Rightarrow> unified list option" where
  \<comment> \<open>extract, import the unmodified files of one column, merge\<close>
  "roundTrip column data =
     (case snd (extractColumns data) of
        None \<Rightarrow> None
      | Some batches \<Rightarrow>
          (case snd (handleTranslatedFileChange column
                       (map (exportedFile column) (columnBatches data column))) of
             Imported res \<Rightarrow>
               replaceColumnsWithTranslations data (setTranslatedFiles [] column (uniqueRows res))
           | _ \<Rightarrow> None))"

definition roundTripDe :: "csv_record list" where
  "roundTripDe = [[(''SKU'', ''B34A1V1''), (''Price'', ''10'')]]"

definition roundTripProduct :: "csv_record list" where
  "roundTripProduct = [[(''SKU'', ''A1''), (''Name'', ''Lamp'')]]"


theorem round_trip_counterexample:
  "map (\<lambda>row. uprop row ''Category'') (mergeFiles roundTripDe roundTripProduct) = [None]
   \<and> map_option (map (\<lambda>row. uprop row ''Category''))
         (roundTrip ''Category'' (mergeFiles roundTripDe roundTripProduct)) = Some [Some []]"
proof -
  have "map (\<lambda>row. uprop row ''Category'') (mergeFiles roundTripDe roundTripProduct) = [None]"
    by code_simp
  moreover have "map_option (map (\<lambda>row. uprop row ''Category''))
         (roundTrip ''Category'' (mergeFiles roundTripDe roundTripProduct)) = Some [Some []]"
    by code_simp
  ultimately show ?thesis by blast
qed

definition translatedRowOf :: "string \<Rightarrow> nat \<times> unified \<Rightarrow> translated_row" where
  \<comment> \<open>the standardized row that comes back for a unified row and its position\<close>
  "translatedRowOf column p =
     \<lparr>tr_row_index = showNat (fst p), tr_SKU = skuOf (snd p), tr_value = orEmpty (uprop (snd p) column)\<rparr>"

lemma columnBatches_concat:
  "concat (map rows (columnBatches data column))
   = map (\<lambda>(i, row). exportRow column i row) (enumerate 0 data)"
proof (cases "column = ''description''")
  case True
  then show ?thesis by (simp only: description_concat)
next
  case False
  then show ?thesis using other_column_batch [of column data] by (simp add: columnBatches_def)
qed

lemma columnBatches_header:
  "b \<in> set (columnBatches data column) \<Longrightarrow> header b = [''row_index'', ''SKU'', column]"
  by (auto simp: columnBatches_def chunkBatch_def Let_def split: if_splits)

lemma lower_row_index: "toLowerCase ''row_index'' = ''row_index''"
  by code_simp

lemma lower_SKU: "toLowerCase ''SKU'' = ''sku''"
  by code_simp

lemma lower_columns:
  "toLowerCase ''Subcategory'' = ''subcategory''"
  "toLowerCase ''Category'' = ''category''"
  "toLowerCase ''Title'' = ''title''"
  "toLowerCase ''description'' = ''description''"
  by code_simp+

lemma standardize_exported:
  assumes "column \<in> set columnsToExtract"
  shows "standardizeRow column [(''row_index'', a), (''SKU'', b), (column, c)]
         = Some \<lparr>tr_row_index = a, tr_SKU = b, tr_value = c\<rparr>"
proof -
  from assms consider "column = ''Subcategory''" | "column = ''Category''" | "column = ''Title''"
    | "column = ''description''"
    by (auto simp: columnsToExtract_def)
  then show ?thesis
  proof cases
    case 1
    then show ?thesis
      by (simp add: standardizeRow_def Let_def rowIndexKeyOf_def skuKeyOf_def dataKeyOf_def
          possibleTranslationsOf_def columnTranslations_def lower_row_index lower_SKU lower_columns
          orElse_def truthy_def rowAt_def getProp_def nth_opt_def)
  next
    case 2
    then show ?thesis
      by (simp add: standardizeRow_def Let_def rowIndexKeyOf_def skuKeyOf_def dataKeyOf_def
          possibleTranslationsOf_def columnTranslations_def lower_row_index lower_SKU lower_columns
          orElse_def truthy_def rowAt_def getProp_def nth_opt_def)
  next
    case 3
    then show ?thesis
      by (simp add: standardizeRow_def Let_def rowIndexKeyOf_def skuKeyOf_def dataKeyOf_def
          possibleTranslationsOf_def columnTranslations_def lower_row_index lower_SKU lower_columns
          orElse_def truthy_def rowAt_def getProp_def nth_opt_def)
  next
    case 4
    then show ?thesis
      by (simp add: standardizeRow_def Let_def rowIndexKeyOf_def skuKeyOf_def dataKeyOf_def
          possibleTranslationsOf_def columnTranslations_def lower_row_index lower_SKU lower_columns
          orElse_def truthy_def rowAt_def getProp_def nth_opt_def)
  qed
qed

lemma keptOf_exported:
  assumes "column \<in> set columnsToExtract" and "b \<in> set (columnBatches data column)"
  shows "keptOf column (snd (exportedFile column b))
         = map (\<lambda>r. \<lparr>tr_row_index = showNat (row_index r), tr_SKU = SKU r, tr_value = cell r\<rparr>) (rows b)"
proof -
  have "List.map_filter (standardizeRow column)
          (map (\<lambda>r. [(''row_index'', showNat (row_index r)), (''SKU'', SKU r), (column, cell r)]) rs)
        = map (\<lambda>r. \<lparr>tr_row_index = showNat (row_index r), tr_SKU = SKU r, tr_value = cell r\<rparr>) rs"
    for rs
    by (induction rs) (simp_all add: map_filter_simps standardize_exported [OF assms(1)])
  then show ?thesis
    by (simp add: keptOf_def exportedFile_def columnBatches_header [OF assms(2)])
qed

lemma kept_of_export:
  assumes "column \<in> set columnsToExtract"
  shows "concat (map (\<lambda>sel. keptOf column (snd sel)) (map (exportedFile column) (columnBatches data column)))
         = map (translatedRowOf column) (enumerate 0 data)"
proof -
  have "concat (map (\<lambda>sel. keptOf column (snd sel)) (map (exportedFile column) (columnBatches data column)))
        = concat (map (\<lambda>b. map (\<lambda>r. \<lparr>tr_row_index = showNat (row_index r), tr_SKU = SKU r,
                                         tr_value = cell r\<rparr>) (rows b))
                    (columnBatches data column))"
    by (simp add: comp_def keptOf_exported [OF assms] cong: map_cong)
  also have "\<dots> = map (\<lambda>r. \<lparr>tr_row_index = showNat (row_index r), tr_SKU = SKU r, tr_value = cell r\<rparr>)
                      (concat (map rows (columnBatches data column)))"
    by (simp add: map_concat comp_def)
  also have "\<dots> = map (translatedRowOf column) (enumerate 0 data)"
    by (simp add: columnBatches_concat translatedRowOf_def exportRow_def skuOf_def comp_def
        case_prod_beta)
  finally show ?thesis .
qed


lemma foldl_update_lookup:
  "map_of (foldl (\<lambda>m (k, v). AList.update k v m) [] kvs) = map_of (rev kvs)"
  by (simp add: map_of_foldl_update)

lemma rowsBySku_foldl:
  "foldl (\<lambda>m row. if tr_SKU row \<noteq> [] then AList.update (tr_SKU row) row m else m) m rs
   = foldl (\<lambda>m (k, v). AList.update k v m) m
       (map (\<lambda>r. (tr_SKU r, r)) (filter (\<lambda>r. tr_SKU r \<noteq> []) rs))"
  by (induction rs arbitrary: m) auto

lemma skuMapOf_foldl:
  "foldl (\<lambda>m row. if tr_SKU row \<noteq> [] then AList.update (tr_SKU row) (tr_value row) m else m) m rs
   = foldl (\<lambda>m (k, v). AList.update k v m) m
       (map (\<lambda>r. (tr_SKU r, tr_value r)) (filter (\<lambda>r. tr_SKU r \<noteq> []) rs))"
  by (induction rs arbitrary: m) auto

lemma rowsBySku_distinct: "distinct (map fst (rowsBySku rs))"
  by (simp add: rowsBySku_def rowsBySku_foldl keys_foldl_update)

lemma rowsBySku_keys: "fst ` set (rowsBySku rs) = tr_SKU ` {r \<in> set rs. tr_SKU r \<noteq> []}"
proof -
  have "fst ` set (rowsBySku rs) = set (map fst (rowsBySku rs))" by simp
  also have "\<dots> = tr_SKU ` {r \<in> set rs. tr_SKU r \<noteq> []}"
    by (simp add: rowsBySku_def rowsBySku_foldl keys_foldl_update comp_def)
  finally show ?thesis .
qed

lemma rowsBySku_sound:
  assumes "(k, r) \<in> set (rowsBySku rs)"
  shows "r \<in> set rs \<and> tr_SKU r = k \<and> k \<noteq> []"
proof -
  from assms have "map_of (rowsBySku rs) k = Some r"
    by (simp add: rowsBySku_distinct)
  then have "map_of (rev (map (\<lambda>r. (tr_SKU r, r)) (filter (\<lambda>r. tr_SKU r \<noteq> []) rs))) k = Some r"
    by (simp add: rowsBySku_def rowsBySku_foldl foldl_update_lookup)
  then have "(k, r) \<in> set (rev (map (\<lambda>r. (tr_SKU r, r)) (filter (\<lambda>r. tr_SKU r \<noteq> []) rs)))"
    by (rule map_of_SomeD)
  then show ?thesis by auto
qed

lemma skuMapOf_sound:
  assumes "map_of (skuMapOf U) s = Some v"
  shows "\<exists>r \<in> set U. tr_SKU r = s \<and> tr_value r = v"
proof -
  from assms
  have "map_of (rev (map (\<lambda>r. (tr_SKU r, tr_value r)) (filter (\<lambda>r. tr_SKU r \<noteq> []) U))) s = Some v"
    by (simp add: skuMapOf_def skuMapOf_foldl foldl_update_lookup)
  then have "(s, v) \<in> set (rev (map (\<lambda>r. (tr_SKU r, tr_value r)) (filter (\<lambda>r. tr_SKU r \<noteq> []) U)))"
    by (rule map_of_SomeD)
  then show ?thesis by auto
qed

lemma skuMapOf_defined:
  assumes "r \<in> set U" and "tr_SKU r \<noteq> []"
  shows "map_of (skuMapOf U) (tr_SKU r) \<noteq> None"
proof -
  from assms
  have "tr_SKU r \<in> fst ` set (rev (map (\<lambda>r. (tr_SKU r, tr_value r)) (filter (\<lambda>r. tr_SKU r \<noteq> []) U)))"
    by force
  then have "map_of (rev (map (\<lambda>r. (tr_SKU r, tr_value r)) (filter (\<lambda>r. tr_SKU r \<noteq> []) U))) (tr_SKU r)
             \<noteq> None"
    by (simp only: map_of_eq_None_iff not_not)
  then show ?thesis
    by (simp add: skuMapOf_def skuMapOf_foldl foldl_update_lookup)
qed

lemma translation_lookup:
  assumes fn: "\<forall>r \<in> set S. \<forall>r' \<in> set S. tr_SKU r = tr_SKU r' \<longrightarrow> tr_value r = tr_value r'"
    and r: "r \<in> set S" and ne: "tr_SKU r \<noteq> []"
  shows "map_of (skuMapOf (map snd (rowsBySku S))) (tr_SKU r) = Some (tr_value r)"
proof -
  from r ne have "tr_SKU r \<in> fst ` set (rowsBySku S)"
    by (auto simp: rowsBySku_keys)
  then obtain r' where kr: "(tr_SKU r, r') \<in> set (rowsBySku S)" by auto
  from rowsBySku_sound [OF kr] have r': "r' \<in> set S" "tr_SKU r' = tr_SKU r" by auto
  from kr have inU: "r' \<in> set (map snd (rowsBySku S))" by force
  from skuMapOf_defined [OF inU] r'(2) ne
  obtain v where v: "map_of (skuMapOf (map snd (rowsBySku S))) (tr_SKU r) = Some v" by auto
  from skuMapOf_sound [OF v] obtain r'' where
    r'': "r'' \<in> set (map snd (rowsBySku S))" "tr_SKU r'' = tr_SKU r" "tr_value r'' = v" by auto
  from r''(1) obtain k where "(k, r'') \<in> set (rowsBySku S)" by auto
  with rowsBySku_sound have "r'' \<in> set S" by blast
  with fn r r''(2,3) have "v = tr_value r" by metis
  with v show ?thesis by simp
qed

lemma uprop_jsonCopy: "distinct (map fst row) \<Longrightarrow> uprop (jsonCopy row) k = uprop row k"
proof (induction row)
  case Nil
  then show ?case by (simp add: jsonCopy_def)
next
  case (Cons p row)
  obtain k' v' where p: "p = (k', v')" by (cases p)
  from Cons.prems have notin: "k' \<notin> fst ` set row" and d: "distinct (map fst row)"
    by (auto simp: p)
  from notin have none: "map_of row k' = None" by (simp add: map_of_eq_None_iff)
  from Cons.IH [OF d] have ih: "uprop (filter (\<lambda>(k, v). v \<noteq> None) row) k = uprop row k"
    by (simp add: jsonCopy_def)
  show ?case
  proof (cases "k = k'")
    case True
    with ih none show ?thesis
      by (cases v') (auto simp: jsonCopy_def p uprop_def)
  next
    case False
    with ih show ?thesis
      by (cases v') (auto simp: jsonCopy_def p uprop_def)
  qed
qed

lemma truthy_orEmpty: "truthy v \<longleftrightarrow> orEmpty v \<noteq> []"
  by (cases v) (simp_all add: truthy_def orEmpty_def)

lemma uprop_update_same: "uprop (AList.update k (Some v) row) k = Some v"
  by (simp add: uprop_def update_conv')

lemma replace_single:
  "replaceColumnsWithTranslations data (setTranslatedFiles [] column U)
   = Some (map (\<lambda>row. replaceInRow [(column, skuMapOf U)] [column] (jsonCopy row)) data)"
  by (simp add: replaceColumnsWithTranslations_def setTranslatedFiles_def Let_def comp_def)

lemma replaced_value:
  assumes wf: "distinct (map fst row)"
    and hit: "skuOf row \<noteq> [] \<Longrightarrow> map_of M (skuOf row) = Some v"
  shows "uprop (replaceInRow [(column, M)] [column] (jsonCopy row)) column
         = (if skuOf row \<noteq> [] then Some v else uprop row column)"
proof (cases "skuOf row = []")
  case True
  then show ?thesis
    by (simp add: replaceInRow_def truthy_orEmpty uprop_jsonCopy [OF wf] skuOf_def)
next
  case False
  with hit have "map_of M (skuOf row) = Some v" by simp
  with False show ?thesis
    by (simp add: replaceInRow_def truthy_orEmpty uprop_jsonCopy [OF wf] skuOf_def
        uprop_update_same)
qed


lemma snd_enumerate: "p \<in> set (enumerate n xs) \<Longrightarrow> snd p \<in> set xs"
  by (metis imageI map_snd_enumerate set_map)

lemma translated_rows_functional:
  assumes dist: "distinct (map skuOf data)"
  shows "\<forall>r \<in> set (map (translatedRowOf column) (enumerate n data)).
           \<forall>r' \<in> set (map (translatedRowOf column) (enumerate n data)).
             tr_SKU r = tr_SKU r' \<longrightarrow> tr_value r = tr_value r'"
proof (intro ballI impI)
  fix r r'
  assume r: "r \<in> set (map (translatedRowOf column) (enumerate n data))"
    and r': "r' \<in> set (map (translatedRowOf column) (enumerate n data))"
    and eq: "tr_SKU r = tr_SKU r'"
  from r obtain p where p: "p \<in> set (enumerate n data)" "r = translatedRowOf column p" by auto
  from r' obtain p' where p': "p' \<in> set (enumerate n data)" "r' = translatedRowOf column p'" by auto
  from p(1) have a: "snd p \<in> set data" by (rule snd_enumerate)
  from p'(1) have b: "snd p' \<in> set data" by (rule snd_enumerate)
  from eq have "skuOf (snd p) = skuOf (snd p')"
    by (simp add: p(2) p'(2) translatedRowOf_def)
  with dist a b have "snd p = snd p'"
    by (meson distinct_map inj_onD)
  then show "tr_value r = tr_value r'"
    by (simp add: p(2) p'(2) translatedRowOf_def)
qed

lemma translated_row_present:
  assumes "row \<in> set data"
  shows "\<exists>r \<in> set (map (translatedRowOf column) (enumerate 0 data)).
           tr_SKU r = skuOf row \<and> tr_value r = orEmpty (uprop row column)"
proof -
  from assms obtain i where "i < length data" "data ! i = row"
    by (auto simp: in_set_conv_nth)
  then have "(i, row) \<in> set (enumerate 0 data)"
    by (simp add: in_set_enumerate_eq)
  then have "translatedRowOf column (i, row) \<in> translatedRowOf column ` set (enumerate 0 data)"
    by (rule imageI)
  then have "translatedRowOf column (i, row) \<in> set (map (translatedRowOf column) (enumerate 0 data))"
    by simp
  moreover have "tr_SKU (translatedRowOf column (i, row)) = skuOf row"
    and "tr_value (translatedRowOf column (i, row)) = orEmpty (uprop row column)"
    by (simp_all add: translatedRowOf_def)
  ultimately show ?thesis by blast
qed

lemma import_of_export:
  assumes col: "column \<in> set columnsToExtract" and ne: "data \<noteq> []"
  shows "\<exists>S. set S = set (map (translatedRowOf column) (enumerate 0 data))
           \<and> (\<exists>res. snd (handleTranslatedFileChange column
                         (map (exportedFile column) (columnBatches data column))) = Imported res
                  \<and> uniqueRows res = map snd (rowsBySku S))"
proof -
  let ?files = "map (exportedFile column) (columnBatches data column)"
  let ?kept = "map (translatedRowOf column) (enumerate 0 data)"
  have files: "?files \<noteq> []"
    using columnBatches_nonempty [OF ne] by simp
  have kept: "concat (map (\<lambda>sel. keptOf column (snd sel)) ?files) = ?kept"
    by (rule kept_of_export [OF col])
  from ne have nonempty: "?kept \<noteq> []" by (cases data) simp_all
  let ?S = "if length ?files > 1 then sort_key sortKey ?kept else ?kept"
  have "set ?S = set ?kept" by simp
  moreover have "snd (handleTranslatedFileChange column ?files)
        = Imported \<lparr>importedRows = ?S,
                      skippedCount = length (droppedOf column (concat (map snd ?files))),
                      uniqueRows = map snd (rowsBySku ?S)\<rparr>"
    using nonempty by (simp only: handle_unfold [OF files] kept Let_def if_False snd_conv)
  then have "\<exists>res. snd (handleTranslatedFileChange column ?files) = Imported res
                  \<and> uniqueRows res = map snd (rowsBySku ?S)"
    by simp
  ultimately show ?thesis by blast
qed

lemma round_trip_values:
  assumes col: "column \<in> set columnsToExtract"
    and cols: "set columnsToExtract \<subseteq> fst ` set first"
    and dist: "distinct (map skuOf (first # rest))"
    and wf: "\<forall>row \<in> set (first # rest). distinct (map fst row)"
  shows "map_option (map (\<lambda>row. uprop row column)) (roundTrip column (first # rest))
         = Some (map (\<lambda>row. if skuOf row \<noteq> [] then Some (orEmpty (uprop row column))
                              else uprop row column) (first # rest))"
proof -
  let ?data = "first # rest"
  let ?kept = "map (translatedRowOf column) (enumerate 0 ?data)"
  from import_of_export [OF col, of ?data]
  obtain S res where S: "set S = set ?kept"
    and res: "snd (handleTranslatedFileChange column
                (map (exportedFile column) (columnBatches ?data column))) = Imported res"
    and uniq: "uniqueRows res = map snd (rowsBySku S)"
    by auto
  have fn: "\<forall>r \<in> set S. \<forall>r' \<in> set S. tr_SKU r = tr_SKU r' \<longrightarrow> tr_value r = tr_value r'"
    using translated_rows_functional [OF dist, of column 0] unfolding S .
  have rt: "roundTrip column ?data
            = Some (map (\<lambda>row. replaceInRow [(column, skuMapOf (map snd (rowsBySku S)))] [column]
                                 (jsonCopy row)) ?data)"
    by (simp add: roundTrip_def extractColumns_ok [OF cols] res uniq replace_single)
  have each: "uprop (replaceInRow [(column, skuMapOf (map snd (rowsBySku S)))] [column] (jsonCopy row)) column
              = (if skuOf row \<noteq> [] then Some (orEmpty (uprop row column)) else uprop row column)"
    if row: "row \<in> set ?data" for row
  proof (rule replaced_value)
    from wf row show "distinct (map fst row)" by blast
  next
    assume sku: "skuOf row \<noteq> []"
    from translated_row_present [OF row, of column]
    obtain r where r: "r \<in> set ?kept" "tr_SKU r = skuOf row" "tr_value r = orEmpty (uprop row column)"
      by blast
    from r(1) have "r \<in> set S" by (simp only: S)
    from translation_lookup [OF fn this] sku r(2,3)
    show "map_of (skuMapOf (map snd (rowsBySku S))) (skuOf row) = Some (orEmpty (uprop row column))"
      by simp
  qed
  show ?thesis
    unfolding rt option.map map_map comp_def
    by (rule arg_cong [where f = Some], rule map_cong [OF refl]) (rule each)
qed


lemma imageFields_keys: "map fst (imageFields item) = filter (\<lambda>k. truthy (getProp item k)) imageKeys"
  by (simp add: imageFields_def comp_def)

lemma distinct_with_images:
  assumes "distinct ks" and "set ks \<inter> set imageKeys = {}"
  shows "distinct (ks @ map fst (imageFields item))"
proof -
  have "distinct imageKeys" by (simp add: imageKeys_def)
  then have "distinct (filter (\<lambda>k. truthy (getProp item k)) imageKeys)" by simp
  moreover have "set (filter (\<lambda>k. truthy (getProp item k)) imageKeys) \<subseteq> set imageKeys" by auto
  ultimately show ?thesis
    using assms unfolding imageFields_keys by (simp only: distinct_append) blast
qed

lemma mergedProduct_keys: "distinct (map fst (mergedProduct k d p))"
proof -
  have "map fst (mergedProduct k d p)
        = [''SKU'', ''EAN'', ''Subcategory'', ''Category'', ''Price'', ''Stock'', ''Material'', ''Title'',
           ''Brand'', ''Product size'', ''Package size Length'', ''Package size Width'',
           ''Package size Height'', ''Net weight'', ''Gross weight'', ''Volume/CBM'', ''Color'',
           ''description''] @ map fst (imageFields d)"
    by (simp add: mergedProduct_def Let_def)
  moreover have "distinct ([''SKU'', ''EAN'', ''Subcategory'', ''Category'', ''Price'', ''Stock'', ''Material'', ''Title'',
           ''Brand'', ''Product size'', ''Package size Length'', ''Package size Width'',
           ''Package size Height'', ''Net weight'', ''Gross weight'', ''Volume/CBM'', ''Color'',
           ''description''] @ map fst (imageFields d))"
    by (rule distinct_with_images) (simp_all add: imageKeys_def)
  ultimately show ?thesis by simp
qed

lemma deSoloProduct_keys: "distinct (map fst (deSoloProduct k d))"
proof -
  have "map fst (deSoloProduct k d)
        = [''SKU'', ''EAN'', ''Brand'', ''Category'', ''Title'', ''Price'', ''Stock'', ''description'']
          @ map fst (imageFields d)"
    by (simp add: deSoloProduct_def)
  moreover have "distinct ([''SKU'', ''EAN'', ''Brand'', ''Category'', ''Title'', ''Price'', ''Stock'', ''description'']
          @ map fst (imageFields d))"
    by (rule distinct_with_images) (simp_all add: imageKeys_def)
  ultimately show ?thesis by simp
qed

lemma productInfoOnly_keys: "distinct (map fst (productInfoOnly k p))"
proof -
  have "map fst (productInfoOnly k p)
        = [''SKU'', ''EAN'', ''Material'', ''Title'', ''Subcategory'', ''Category'', ''Brand'',
           ''Product size'', ''Package size Length'', ''Package size Width'',
           ''Package size Height'', ''Net weight'', ''Gross weight'', ''Volume/CBM'', ''Color'',
           ''description''] @ map fst (imageFields p)"
    by (simp add: productInfoOnly_def Let_def)
  moreover have "distinct ([''SKU'', ''EAN'', ''Material'', ''Title'', ''Subcategory'', ''Category'', ''Brand'',
           ''Product size'', ''Package size Length'', ''Package size Width'',
           ''Package size Height'', ''Net weight'', ''Gross weight'', ''Volume/CBM'', ''Color'',
           ''description''] @ map fst (imageFields p))"
    by (rule distinct_with_images) (simp_all add: imageKeys_def)
  ultimately show ?thesis by simp
qed

lemma mergeFiles_rows_wellformed:
  "row \<in> set (mergeFiles deData productData) \<Longrightarrow> distinct (map fst row)"
  unfolding mergeFiles_eq
  by (auto simp: primaryRecord_def mergedProduct_keys deSoloProduct_keys productInfoOnly_keys
      split: option.splits simp del: distinct_map)

text \<open>
  C9, as the code has it: for a unified set whose rows have distinct identifiers (as every
  join output has) and whose first record has the four extractable columns, extracting a
  column, importing the unmodified exported files of that column and applying the
  translation merge gives, on every row with a non-empty identifier, the original value of
  the column when it is a string and the empty string when the original value is undefined
  or absent; a row with an empty identifier keeps its original value.
\<close>

theorem round_trip:
  "column \<in> set columnsToExtract
   \<and> set columnsToExtract \<subseteq> fst ` set first
   \<and> distinct (map skuOf (first # rest))
   \<and> (\<forall>row \<in> set (first # rest). distinct (map fst row))
   \<longrightarrow> map_option (map (\<lambda>row. uprop row column)) (roundTrip column (first # rest))
       = Some (map (\<lambda>row. if skuOf row \<noteq> [] then Some (orEmpty (uprop row column))
                           else uprop row column) (first # rest))"
  using round_trip_values [of column first rest] by blast

theorem round_trip_witness:
  "map_option (map (\<lambda>row. uprop row ''Title''))
     (roundTrip ''Title'' (mergeFiles roundTripDe roundTripProduct)) = Some [Some ''Lamp'']
   \<and> map (\<lambda>row. uprop row ''Title'') (mergeFiles roundTripDe roundTripProduct) = [Some ''Lamp'']"
proof -
  let ?row = "mergedProduct ''A1'' [(''SKU'', ''B34A1V1''), (''Price'', ''10'')]
                [(''SKU'', ''A1''), (''Name'', ''Lamp'')]"
  have out: "mergeFiles roundTripDe roundTripProduct = ?row # []"
    by code_simp
  have c: "''Title'' \<in> set columnsToExtract" by (simp add: columnsToExtract_def)
  have cols: "set columnsToExtract \<subseteq> fst ` set ?row" by code_simp
  have d: "distinct (map skuOf (?row # []))" by simp
  have wf: "\<forall>row \<in> set (?row # []). distinct (map fst row)"
    by (simp add: mergedProduct_keys del: distinct_map)
  have sku: "skuOf ?row = ''A1''" by simp
  have t: "uprop ?row ''Title'' = Some ''Lamp''" by code_simp
  from round_trip [of "''Title''" ?row "[]"] c cols d wf
  have "map_option (map (\<lambda>row. uprop row ''Title'')) (roundTrip ''Title'' (?row # []))
        = Some (map (\<lambda>row. if skuOf row \<noteq> [] then Some (orEmpty (uprop row ''Title''))
                           else uprop row ''Title'') (?row # []))"
    by blast
  then show ?thesis
    by (simp add: out sku t orEmpty_def)
qed

end
